theory Spec2Isabelle
  imports Complex_Main "HOL-Library.Log_Nat"
begin

section \<open>Python values, exceptions and features\<close>

text \<open>
  Attribute values of ArcGIS features: \<open>None\<close>, integers and strings. (Floats and
  booleans are not modelled.)
\<close>

datatype val = VNone | VInt int | VStr string

text \<open>
  Exceptions are values. \<open>RaiseStmt\<close> marks an exception raised by a \<open>raise\<close> statement of
  the script itself (with the message the script builds); \<open>Builtin\<close> marks one raised by
  the Python interpreter or a builtin (dict lookup, attribute access on \<open>None\<close>, \<open>min()\<close> and
  \<open>max()\<close> of an empty sequence, comparison or division of incompatible types, a
  quotient too large for a float). The string is the exception's message; for \<open>KeyError\<close>
  it is the missing key.
\<close>

datatype origin = RaiseStmt | Builtin

datatype exc_class =
  KeyError | ValueError | AttributeError | TypeError | IndexError | OverflowError

datatype error = Error origin exc_class string

text \<open>Whether a result is an exception raised by a \<open>raise\<close> statement of the script.\<close>

definition explicit_failure :: "error + 'a \<Rightarrow> bool" where
  "explicit_failure r = (case r of Inl (Error RaiseStmt _ _) \<Rightarrow> True | _ \<Rightarrow> False)"

definition bind_err :: "error + 'a \<Rightarrow> ('a \<Rightarrow> error + 'b) \<Rightarrow> error + 'b" where
  "bind_err m f = (case m of Inl e \<Rightarrow> Inl e | Inr x \<Rightarrow> f x)"

text \<open>A list comprehension whose element expression may raise: stops at the first exception.\<close>

fun mapM :: "('a \<Rightarrow> error + 'b) \<Rightarrow> 'a list \<Rightarrow> error + 'b list" where
  "mapM f [] = Inr []"
| "mapM f (x # xs) =
     (case f x of Inl e \<Rightarrow> Inl e
      | Inr y \<Rightarrow> (case mapM f xs of Inl e \<Rightarrow> Inl e | Inr ys \<Rightarrow> Inr (y # ys)))"

text \<open>A list comprehension with an \<open>if\<close> clause whose condition may raise.\<close>

fun filterM :: "('a \<Rightarrow> error + bool) \<Rightarrow> 'a list \<Rightarrow> error + 'a list" where
  "filterM p [] = Inr []"
| "filterM p (x # xs) =
     (case p x of Inl e \<Rightarrow> Inl e
      | Inr b \<Rightarrow> (case filterM p xs of Inl e \<Rightarrow> Inl e
                  | Inr ys \<Rightarrow> Inr (if b then x # ys else ys)))"

definition newline :: string where
  "newline = [CHR 0x0A]"

definition quote :: string where
  "quote = [CHR 0x27]"

fun digits :: "nat \<Rightarrow> string" where
  "digits n =
     (if n < 10 then [''0123456789'' ! n]
      else digits (n div 10) @ [''0123456789'' ! (n mod 10)])"

declare digits.simps [simp del]

definition str_int :: "int \<Rightarrow> string" where
  "str_int i = (if i < 0 then CHR ''-'' # digits (nat (- i)) else digits (nat i))"

text \<open>\<open>str(v)\<close>, which is what an f-string placeholder \<open>{v}\<close> inserts.\<close>

fun py_str :: "val \<Rightarrow> string" where
  "py_str VNone = ''None''"
| "py_str (VInt i) = str_int i"
| "py_str (VStr s) = s"

text \<open>Truth value of \<open>v\<close> in \<open>... if v else ...\<close>.\<close>

fun truthy :: "val \<Rightarrow> bool" where
  "truthy VNone = False"
| "truthy (VInt i) = (i \<noteq> 0)"
| "truthy (VStr s) = (s \<noteq> [])"

fun type_name :: "val \<Rightarrow> string" where
  "type_name VNone = ''NoneType''"
| "type_name (VInt i) = ''int''"
| "type_name (VStr s) = ''str''"

text \<open>
  An \<open>arcgis.Feature\<close>: a geometry (opaque, of type \<open>'g\<close>) and a dict of attributes.
\<close>

record 'g feature =
  geometry :: 'g
  attributes :: "string \<rightharpoonup> val"

text \<open>\<open>d[k]\<close> on a dict.\<close>

definition getitem :: "(string \<rightharpoonup> val) \<Rightarrow> string \<Rightarrow> error + val" where
  "getitem d k = (case d k of None \<Rightarrow> Inl (Error Builtin KeyError k) | Some v \<Rightarrow> Inr v)"

text \<open>
  \<open>s.attributes[k]\<close> where \<open>s\<close> is a feature or \<open>None\<close> (the nearest-feature search returns
  \<open>None\<close> when no candidate is nearer than \<open>math.inf\<close>).
\<close>

definition attribute :: "'g feature option \<Rightarrow> string \<Rightarrow> error + val" where
  "attribute s k =
     (case s of
        None \<Rightarrow> Inl (Error Builtin AttributeError
                  (quote @ ''NoneType'' @ quote @ '' object has no attribute '' @
                   quote @ ''attributes'' @ quote))
      | Some f \<Rightarrow> getitem (attributes f) k)"

section \<open>Python floats\<close>

text \<open>
  A Python float is a finite double (given by the real number it denotes), one of the
  two infinities or NaN. \<open>a < b\<close> and \<open>a <= b\<close> are False as soon as one side is NaN.
\<close>

datatype pyfloat = Finite real | PosInf | NegInf | NaN

fun float_lt :: "pyfloat \<Rightarrow> pyfloat \<Rightarrow> bool" where
  "float_lt NaN b = False"
| "float_lt a NaN = False"
| "float_lt (Finite a) (Finite b) = (a < b)"
| "float_lt (Finite a) PosInf = True"
| "float_lt (Finite a) NegInf = False"
| "float_lt NegInf NegInf = False"
| "float_lt NegInf b = True"
| "float_lt PosInf b = False"

fun float_le :: "pyfloat \<Rightarrow> pyfloat \<Rightarrow> bool" where
  "float_le NaN b = False"
| "float_le a NaN = False"
| "float_le (Finite a) (Finite b) = (a \<le> b)"
| "float_le (Finite a) PosInf = True"
| "float_le (Finite a) NegInf = False"
| "float_le NegInf b = True"
| "float_le PosInf PosInf = True"
| "float_le PosInf b = False"

section \<open>find_nearest_feature\<close>

text \<open>
  The running minimum \<open>distance_shortest\<close> starts at \<open>math.inf\<close>. The distance between two
  shapes (\<open>arcgis.geometry.Geometry\<close>, \<open>shapely_wkt.loads\<close> and \<open>shape.distance\<close>, all of
  them library code) is the parameter \<open>sdist\<close>; it returns a Python float, so it may be
  NaN (as for an empty geometry) or infinite.
\<close>

fun nearest_loop ::
  "('g \<Rightarrow> 'g \<Rightarrow> pyfloat) \<Rightarrow> 'g \<Rightarrow> 'g feature list \<Rightarrow> 'g feature option \<times> pyfloat
     \<Rightarrow> 'g feature option \<times> pyfloat" where
  "nearest_loop sdist shape [] acc = acc"
| "nearest_loop sdist shape (search_feature # rest) (nearest_feature, distance_shortest) =
     (let distance_current = sdist shape (geometry search_feature)
      in if float_lt distance_current distance_shortest
         then nearest_loop sdist shape rest (Some search_feature, distance_current)
         else nearest_loop sdist shape rest (nearest_feature, distance_shortest))"

definition find_nearest_feature ::
  "('g \<Rightarrow> 'g \<Rightarrow> pyfloat) \<Rightarrow> 'g feature \<Rightarrow> 'g feature list
     \<Rightarrow> 'g feature option \<times> pyfloat" where
  "find_nearest_feature sdist input_feature search_features =
     nearest_loop sdist (geometry input_feature) search_features (None, PosInf)"

section \<open>block_range\<close>

text \<open>Python's \<open><\<close> on strings: lexicographic by code point.\<close>

fun str_lt :: "string \<Rightarrow> string \<Rightarrow> bool" where
  "str_lt [] [] = False"
| "str_lt [] (d # ds) = True"
| "str_lt (c # cs) [] = False"
| "str_lt (c # cs) (d # ds) =
     (if c = d then str_lt cs ds else (of_char c :: nat) < of_char d)"

definition not_supported :: "string \<Rightarrow> val \<Rightarrow> val \<Rightarrow> error" where
  "not_supported opr a b =
     Error Builtin TypeError
       (quote @ opr @ quote @ '' not supported between instances of '' @
        quote @ type_name a @ quote @ '' and '' @ quote @ type_name b @ quote)"

fun val_lt :: "val \<Rightarrow> val \<Rightarrow> error + bool" where
  "val_lt (VInt a) (VInt b) = Inr (a < b)"
| "val_lt (VStr a) (VStr b) = Inr (str_lt a b)"
| "val_lt a b = Inl (not_supported ''<'' a b)"

fun val_gt :: "val \<Rightarrow> val \<Rightarrow> error + bool" where
  "val_gt (VInt a) (VInt b) = Inr (a > b)"
| "val_gt (VStr a) (VStr b) = Inr (str_lt b a)"
| "val_gt a b = Inl (not_supported ''>'' a b)"

text \<open>
  The builtins \<open>min(list)\<close> and \<open>max(list)\<close>: the first item is the running result, every
  later item is compared with it (\<open>item < result\<close> for \<open>min\<close>, \<open>item > result\<close> for \<open>max\<close>)
  and replaces it when the comparison holds.
\<close>

fun min_loop :: "val \<Rightarrow> val list \<Rightarrow> error + val" where
  "min_loop best [] = Inr best"
| "min_loop best (x # xs) =
     (case val_lt x best of Inl e \<Rightarrow> Inl e
      | Inr b \<Rightarrow> min_loop (if b then x else best) xs)"

fun py_min :: "val list \<Rightarrow> error + val" where
  "py_min [] = Inl (Error Builtin ValueError ''min() arg is an empty sequence'')"
| "py_min (x # xs) = min_loop x xs"

fun max_loop :: "val \<Rightarrow> val list \<Rightarrow> error + val" where
  "max_loop best [] = Inr best"
| "max_loop best (x # xs) =
     (case val_gt x best of Inl e \<Rightarrow> Inl e
      | Inr b \<Rightarrow> max_loop (if b then x else best) xs)"

fun py_max :: "val list \<Rightarrow> error + val" where
  "py_max [] = Inl (Error Builtin ValueError ''max() arg is an empty sequence'')"
| "py_max (x # xs) = max_loop x xs"

text \<open>
  \<open>v / 100\<close> on an integer \<open>v\<close>: true division. The result is the double nearest to the
  exact quotient (ties go to the even mantissa), or \<open>OverflowError\<close> when that is beyond
  the range of a double.

  For \<open>n \<ge> 1\<close>, \<open>binary_exponent n\<close> is the \<open>k\<close> with \<open>2 ^ k \<le> n / 100 < 2 ^ (k + 1)\<close>
  (\<open>bitlen\<close> is the number of binary digits, and \<open>n * 128 / 100 \<ge> 1\<close>). A double has a
  mantissa of 53 binary digits, so the doubles around \<open>n / 100\<close> are the multiples of
  \<open>2 ^ (k - 52)\<close>, and the quotient is rounded to the nearest of them.
\<close>

definition round_half_even :: "real \<Rightarrow> int" where
  "round_half_even y =
     (let f = \<lfloor>y\<rfloor>
      in if y - of_int f < 1 / 2 then f
         else if y - of_int f > 1 / 2 then f + 1
         else if even f then f else f + 1)"

definition binary_exponent :: "int \<Rightarrow> int" where
  "binary_exponent n = bitlen (n * 128 div 100) - 8"

definition double_of_quotient100 :: "int \<Rightarrow> real" where
  "double_of_quotient100 n =
     (let e = binary_exponent n - 52
      in of_int (round_half_even (of_int n / 100 / 2 powi e)) * 2 powi e)"

fun truediv100 :: "val \<Rightarrow> error + pyfloat" where
  "truediv100 (VInt i) =
     (if i = 0 then Inr (Finite 0)
      else let d = double_of_quotient100 \<bar>i\<bar>
           in if d \<ge> 2 ^ 1024
              then Inl (Error Builtin OverflowError
                          ''integer division result too large for a float'')
              else Inr (Finite (if i < 0 then - d else d)))"
| "truediv100 v =
     Inl (Error Builtin TypeError
            (''unsupported operand type(s) for /: '' @ quote @ type_name v @ quote @
             '' and '' @ quote @ ''int'' @ quote))"

text \<open>\<open>math.floor\<close> and \<open>math.ceil\<close> of a float: an integer, or an exception.\<close>

definition not_an_integer :: "pyfloat \<Rightarrow> error" where
  "not_an_integer x =
     (if x = NaN then Error Builtin ValueError ''cannot convert float NaN to integer''
      else Error Builtin OverflowError ''cannot convert float infinity to integer'')"

fun math_floor :: "pyfloat \<Rightarrow> error + int" where
  "math_floor (Finite r) = Inr \<lfloor>r\<rfloor>"
| "math_floor x = Inl (not_an_integer x)"

fun math_ceil :: "pyfloat \<Rightarrow> error + int" where
  "math_ceil (Finite r) = Inr \<lceil>r\<rceil>"
| "math_ceil x = Inl (not_an_integer x)"

definition block_range :: "'g feature option list \<Rightarrow> error + (int \<times> int)" where
  "block_range segments =
     bind_err (mapM (\<lambda>s. attribute s ''LEFT_BLOCK_FROM'') segments) (\<lambda>froms.
     bind_err (py_min froms) (\<lambda>blk_start.
     bind_err (mapM (\<lambda>s. attribute s ''LEFT_BLOCK_TO'') segments) (\<lambda>tos.
     bind_err (py_max tos) (\<lambda>blk_end.
     bind_err (truediv100 blk_start) (\<lambda>q_start.
     bind_err (math_floor q_start) (\<lambda>f_start.
     let blk_start_round = f_start * 100 in
     bind_err (truediv100 blk_end) (\<lambda>q_end.
     bind_err (math_ceil q_end) (\<lambda>c_end.
     let blk_end_round = c_end * 100 in
     Inr (blk_start_round, blk_end_round)))))))))"

section \<open>construct_engineer_note\<close>

definition construct_engineer_note :: "(string \<rightharpoonup> val) \<Rightarrow> error + string" where
  "construct_engineer_note data =
     bind_err (getitem data ''INSTRUCTIONS'') (\<lambda>action_value.
     let action = ''Action: '' @ py_str action_value @ newline in
     bind_err (getitem data ''COMMENTS'') (\<lambda>c.
     let comments = (if truthy c then ''Note: '' @ py_str c @ newline else []) in
     bind_err (getitem data ''CURRENT_SPEED_LIMIT'') (\<lambda>cur.
     let current_spd = ''Speed Limit: '' @ py_str cur @ newline in
     bind_err (getitem data ''FUTURE_SPEED_LIMIT'') (\<lambda>fut.
     let future_spd = ''Speed limit: '' @ py_str fut @ newline in
     bind_err (getitem data ''CUSTOM_SIGN'') (\<lambda>cs.
     let custom_sign = (if truthy cs then ''Custom sign: '' @ py_str cs @ newline else []) in
     bind_err (getitem data ''SIGN_TYPE'') (\<lambda>st.
     let sign_type = ''Size: '' @ py_str st @ newline in
     if action_value = VStr ''REPLACE'' \<or> action_value = VStr ''INSTALL''
     then Inr (concat [action, future_spd, sign_type, custom_sign, comments])
     else if action_value = VStr ''REMOVE''
     then Inr (concat [action, current_spd, comments])
     else Inl (Error RaiseStmt ValueError
                 (''Unknown INSTRUCTIONS value for sign feature: '' @ py_str action_value))))))))"

section \<open>The WorkOrder class\<close>

text \<open>
  \<open>collections.Counter(iterable)\<close>: a dict from item to count, in the order in which the
  items were first seen. It is an association list here because the order of
  \<open>items()\<close> decides which maximum \<open>max\<close> returns.
\<close>

fun counter_add :: "('k \<times> nat) list \<Rightarrow> 'k \<Rightarrow> ('k \<times> nat) list" where
  "counter_add [] k = [(k, 1)]"
| "counter_add ((k', c) # kcs) k =
     (if k' = k then (k', c + 1) # kcs else (k', c) # counter_add kcs k)"

definition Counter :: "'k list \<Rightarrow> ('k \<times> nat) list" where
  "Counter xs = foldl counter_add [] xs"

text \<open>
  \<open>max(items, key=...)\<close>: as \<open>max\<close> above, comparing the keys of the items (integers
  here); an item replaces the running maximum only when its key is strictly greater.
\<close>

fun max_key_loop :: "('a \<Rightarrow> nat) \<Rightarrow> 'a \<Rightarrow> 'a list \<Rightarrow> 'a" where
  "max_key_loop key best [] = best"
| "max_key_loop key best (x # xs) =
     (if key x > key best then max_key_loop key x xs else max_key_loop key best xs)"

fun py_max_key :: "('a \<Rightarrow> nat) \<Rightarrow> 'a list \<Rightarrow> error + 'a" where
  "py_max_key key [] = Inl (Error Builtin ValueError ''max() arg is an empty sequence'')"
| "py_max_key key (x # xs) = Inr (max_key_loop key x xs)"

text \<open>
  The fields of a \<open>WorkOrder\<close> that the enrichment steps read and write. \<open>signs\<close>,
  \<open>street_segments\<close> and \<open>sign_segments\<close> are set by \<open>get_signs\<close>,
  \<open>identify_street_segments\<close> and \<open>identify_nearest_sign_segments\<close>.
\<close>

record 'g work_order =
  wo_geometry :: 'g
  wo_attributes :: "string \<rightharpoonup> val"
  signs :: "'g feature list"
  street_segments :: "'g feature list"
  sign_segments :: "'g feature option list"

text \<open>\<open>max(name_counts.items(), key=operator.itemgetter(1))[0]\<close>\<close>

definition most_common :: "(val \<times> nat) list \<Rightarrow> error + val" where
  "most_common name_counts =
     bind_err (py_max_key snd name_counts) (\<lambda>item. Inr (fst item))"

text \<open>
  \<open>construct_location\<close> updates \<open>self.attributes\<close> in its last statement only, so an
  exception leaves the work order as it was: the model returns either the exception or
  the updated work order.
\<close>

definition construct_location :: "'g work_order \<Rightarrow> error + 'g work_order" where
  "construct_location self =
     bind_err (mapM (\<lambda>s. attribute s ''FULL_STREET_NAME'') (sign_segments self))
       (\<lambda>street_names.
     let name_counts = Counter street_names in
     bind_err (most_common name_counts) (\<lambda>most_common_name.
     bind_err (filterM (\<lambda>s. bind_err (attribute s ''FULL_STREET_NAME'')
                                (\<lambda>n. Inr (n = most_common_name)))
                 (sign_segments self)) (\<lambda>street_segments_block_range.
     bind_err (block_range street_segments_block_range) (\<lambda>(blk_start, blk_end).
     bind_err (case street_segments_block_range of
                 [] \<Rightarrow> Inl (Error Builtin IndexError ''list index out of range'')
               | s # _ \<Rightarrow> attribute s ''SEGMENT_ID'') (\<lambda>street_segment_id.
     let location_name =
           (if length street_segments_block_range = 1
            then str_int blk_start @ '' BLK '' @ py_str most_common_name
            else str_int blk_start @ ''-'' @ str_int blk_end @ '' '' @
                 py_str most_common_name)
     in Inr (self\<lparr>wo_attributes := (wo_attributes self)
                (''GENERATED_LOCATION_FROM_API'' \<mapsto> VStr location_name,
                 ''LOCATION_STREET_SEGMENT_ID_REFERENCE'' \<mapsto> street_segment_id)\<rparr>))))))"

section \<open>The batch loop of main\<close>

text \<open>
  What the run leaves behind: the records passed to \<open>logging\<close> and the state of the two
  external services (ArcGIS Online and Knack), of an opaque type \<open>'w\<close>.
\<close>

datatype level = INFO | WARNING | ERROR

record 'w world =
  logged :: "(level \<times> string) list"
  services :: 'w

text \<open>
  The library calls of the loop body are parameters:
  the three spatial queries (each reads the service state and the work order's
  geometry; the engineer-area query includes the centroid computation and
  \<open>create_geom_filter\<close>, which raises \<open>ValueError\<close> on an invalid geometry), the shape
  distance (a Python float), and \<open>knack_steps\<close>, which stands for the statements of the loop body after
  \<open>construct_location\<close> (from \<open>set_knack_user_id\<close> to the last Knack update): they
  build the payloads, write to Knack and ArcGIS Online, and log.
\<close>

record ('g, 'w) env =
  signs_query :: "'w \<Rightarrow> 'g \<Rightarrow> 'g feature list"
  eng_areas_query :: "'w \<Rightarrow> 'g \<Rightarrow> error + 'g feature list"
  street_segments_query :: "'w \<Rightarrow> 'g \<Rightarrow> 'g feature list"
  distance :: "'g \<Rightarrow> 'g \<Rightarrow> pyfloat"
  knack_steps :: "'g work_order \<Rightarrow> 'w world \<Rightarrow> 'w world \<times> error option"

definition warning :: "string \<Rightarrow> 'w world \<Rightarrow> 'w world" where
  "warning msg w = w\<lparr>logged := logged w @ [(WARNING, msg)]\<rparr>"

definition get_signs :: "('g, 'w) env \<Rightarrow> 'w world \<Rightarrow> 'g work_order \<Rightarrow> 'g work_order" where
  "get_signs e w self = self\<lparr>signs := signs_query e (services w) (wo_geometry self)\<rparr>"

definition identify_eng_area ::
  "('g, 'w) env \<Rightarrow> 'w world \<Rightarrow> 'g work_order \<Rightarrow> 'w world \<times> (error + 'g work_order)" where
  "identify_eng_area e w self =
     (case eng_areas_query e (services w) (wo_geometry self) of
        Inl err \<Rightarrow> (w, Inl err)
      | Inr [] \<Rightarrow>
          (case getitem (wo_attributes self) ''OBJECTID'' of
             Inl err \<Rightarrow> (w, Inl err)
           | Inr oid \<Rightarrow>
               (warning (''No work area found for '' @ py_str oid) w,
                Inr (self\<lparr>wo_attributes := (wo_attributes self)(''WORK_AREA'' \<mapsto> VNone)\<rparr>)))
      | Inr (f # _) \<Rightarrow>
          (case getitem (attributes f) ''ATD_ENGINEER_AREAS'' of
             Inl err \<Rightarrow> (w, Inl err)
           | Inr area \<Rightarrow>
               (w, Inr (self\<lparr>wo_attributes := (wo_attributes self)(''WORK_AREA'' \<mapsto> area)\<rparr>))))"

definition identify_street_segments ::
  "('g, 'w) env \<Rightarrow> 'w world \<Rightarrow> 'g work_order \<Rightarrow> error + 'g work_order" where
  "identify_street_segments e w self =
     (let segs = street_segments_query e (services w) (wo_geometry self)
      in if segs = []
         then bind_err (getitem (wo_attributes self) ''OBJECTID'') (\<lambda>oid.
              Inl (Error RaiseStmt ValueError
                     (''No street segments found at work order location: '' @ py_str oid)))
         else Inr (self\<lparr>street_segments := segs\<rparr>))"

definition identify_nearest_sign_segments ::
  "('g, 'w) env \<Rightarrow> 'g work_order \<Rightarrow> 'g work_order" where
  "identify_nearest_sign_segments e self =
     self\<lparr>sign_segments :=
            map (\<lambda>sign. fst (find_nearest_feature (distance e) sign (street_segments self)))
                (signs self)\<rparr>"

text \<open>
  The body of the \<open>for wo in work_orders\<close> loop after the check for signs: the final
  world and the exception that left the body, if any.
\<close>

definition process_work_order ::
  "('g, 'w) env \<Rightarrow> 'w world \<Rightarrow> 'g work_order \<Rightarrow> 'w world \<times> error option" where
  "process_work_order e w wo =
     (case identify_eng_area e w wo of
        (w1, Inl err) \<Rightarrow> (w1, Some err)
      | (w1, Inr wo1) \<Rightarrow>
          (case identify_street_segments e w1 wo1 of
             Inl err \<Rightarrow> (w1, Some err)
           | Inr wo2 \<Rightarrow>
               (case construct_location (identify_nearest_sign_segments e wo2) of
                  Inl err \<Rightarrow> (w1, Some err)
                | Inr wo3 \<Rightarrow> knack_steps e wo3 w1)))"

text \<open>
  The loop itself. \<open>main\<close> has no \<open>try\<close>: an exception in the body ends the loop (and the
  run); \<open>continue\<close> goes on with the next work order.
\<close>

fun main_loop ::
  "('g, 'w) env \<Rightarrow> 'g work_order list \<Rightarrow> 'w world \<Rightarrow> 'w world \<times> error option" where
  "main_loop e [] w = (w, None)"
| "main_loop e (wo # work_orders) w =
     (let wo1 = get_signs e w wo
      in if signs wo1 = []
         then (case getitem (wo_attributes wo1) ''OBJECTID'' of
                 Inl err \<Rightarrow> (w, Some err)
               | Inr oid \<Rightarrow>
                   main_loop e work_orders
                     (warning (''Work order has no intersecting sign points: '' @ py_str oid) w))
         else (case process_work_order e w wo1 of
                 (w', Some err) \<Rightarrow> (w', Some err)
               | (w', None) \<Rightarrow> main_loop e work_orders w'))"

section \<open>Sample inputs\<close>

text \<open>A point feature on the real line, for the nearest-feature search.\<close>

definition pt :: "real \<Rightarrow> real feature" where
  "pt x = \<lparr>geometry = x, attributes = Map.empty\<rparr>"

text \<open>A street segment with a name, a block range and a segment id.\<close>

definition seg :: "string \<Rightarrow> int \<Rightarrow> int \<Rightarrow> int \<Rightarrow> real feature" where
  "seg name a b sid =
     \<lparr>geometry = 0,
      attributes = [''FULL_STREET_NAME'' \<mapsto> VStr name, ''LEFT_BLOCK_FROM'' \<mapsto> VInt a,
                    ''LEFT_BLOCK_TO'' \<mapsto> VInt b, ''SEGMENT_ID'' \<mapsto> VInt sid]\<rparr>"

text \<open>The attributes of a sign with the given \<open>INSTRUCTIONS\<close> value.\<close>

definition sign_data :: "string \<Rightarrow> (string \<rightharpoonup> val)" where
  "sign_data instr =
     [''INSTRUCTIONS'' \<mapsto> VStr instr, ''COMMENTS'' \<mapsto> VStr ''near school'',
      ''CURRENT_SPEED_LIMIT'' \<mapsto> VInt 30, ''FUTURE_SPEED_LIMIT'' \<mapsto> VInt 25,
      ''CUSTOM_SIGN'' \<mapsto> VNone, ''SIGN_TYPE'' \<mapsto> VStr ''24x30'']"

text \<open>
  A work order as \<open>WorkOrder.__init__\<close> leaves it (no signs or segments fetched yet), and
  one whose signs have been matched to the given segments.
\<close>

definition new_wo :: "real \<Rightarrow> int \<Rightarrow> real work_order" where
  "new_wo g oid =
     \<lparr>wo_geometry = g, wo_attributes = [''OBJECTID'' \<mapsto> VInt oid], signs = [],
      street_segments = [], sign_segments = []\<rparr>"

definition matched_wo :: "real feature option list \<Rightarrow> real work_order" where
  "matched_wo segs = (new_wo 0 1)\<lparr>signs := map (\<lambda>_. pt 0) segs, sign_segments := segs\<rparr>"

definition main_st_oak_st :: "real feature option list" where
  "main_st_oak_st =
     [Some (seg ''Main St'' 1210 1240 7), Some (seg ''Oak St'' 300 380 8),
      Some (seg ''Main St'' 1250 1290 9)]"

text \<open>
  Four signs matched to \<open>Oak St\<close>, \<open>Main St\<close>, \<open>Main St\<close> and \<open>Oak St\<close>: each name counts
  twice, and \<open>Oak St\<close> is seen first.
\<close>

definition oak_main_tie :: "real feature option list" where
  "oak_main_tie =
     [Some (seg ''Oak St'' 300 380 8), Some (seg ''Main St'' 1210 1240 7),
      Some (seg ''Main St'' 1250 1290 9), Some (seg ''Oak St'' 410 460 6)]"

definition oak_located :: "real work_order" where
  "oak_located =
     (matched_wo oak_main_tie)\<lparr>wo_attributes := (wo_attributes (matched_wo oak_main_tie))
        (''GENERATED_LOCATION_FROM_API'' \<mapsto> VStr ''300-500 Oak St'',
         ''LOCATION_STREET_SEGMENT_ID_REFERENCE'' \<mapsto> VInt 8)\<rparr>"

definition main_st_located :: "real work_order" where
  "main_st_located =
     (matched_wo main_st_oak_st)\<lparr>wo_attributes := (wo_attributes (matched_wo main_st_oak_st))
        (''GENERATED_LOCATION_FROM_API'' \<mapsto> VStr ''1200-1300 Main St'',
         ''LOCATION_STREET_SEGMENT_ID_REFERENCE'' \<mapsto> VInt 7)\<rparr>"

text \<open>
  Services for the batch loop: the work order at 1 has no signs, the one at 2 has a sign
  but no street segments, every other one has one sign and two segments of Elm St. The
  service state counts the work orders that reached the Knack steps.
\<close>

definition sample_env :: "(real, nat) env" where
  "sample_env =
     \<lparr>signs_query = (\<lambda>w g. if g = 1 then [] else [pt g]),
      eng_areas_query =
        (\<lambda>w g. Inr [\<lparr>geometry = g, attributes = [''ATD_ENGINEER_AREAS'' \<mapsto> VStr ''NORTH'']\<rparr>]),
      street_segments_query =
        (\<lambda>w g. if g = 2 then [] else [seg ''Elm St'' 500 560 4, seg ''Elm St'' 570 650 5]),
      distance = (\<lambda>a b. Finite \<bar>a - b\<bar>),
      knack_steps = (\<lambda>wo w. (w\<lparr>services := Suc (services w)\<rparr>, None))\<rparr>"

definition world0 :: "nat world" where
  "world0 = \<lparr>logged = [], services = 0\<rparr>"

section \<open>The nearest feature\<close>

text \<open>Comparisons of floats that are not NaN behave as an order.\<close>

lemma float_le_refl: "a \<noteq> NaN \<Longrightarrow> float_le a a"
  by (cases a) auto

lemma float_not_lt_le: "a \<noteq> NaN \<Longrightarrow> b \<noteq> NaN \<Longrightarrow> \<not> float_lt a b \<Longrightarrow> float_le b a"
  by (cases a; cases b) auto

lemma float_lt_imp_le: "float_lt a b \<Longrightarrow> float_le a b"
  by (cases a; cases b) auto

lemma float_lt_le_trans: "float_lt a b \<Longrightarrow> float_le b c \<Longrightarrow> float_lt a c"
  by (cases a; cases b; cases c) auto

lemma float_not_lt_PosInf: "a \<noteq> NaN \<Longrightarrow> \<not> float_lt a PosInf \<Longrightarrow> a = PosInf"
  by (cases a) auto

text \<open>
  The loop invariant, for candidates without NaN distances: after the candidates \<open>pre\<close>
  the accumulator is still the initial one if all of them are at distance
  \<open>+infinity\<close>, and otherwise holds the first candidate of \<open>pre\<close> at minimal distance,
  with that distance.
\<close>

lemma nearest_loop_inv:
  fixes sdist :: "'g \<Rightarrow> 'g \<Rightarrow> pyfloat" and shape :: 'g
  defines "D \<equiv> \<lambda>f. sdist shape (geometry f)"
  defines "P \<equiv> \<lambda>pre acc. (acc = (None, PosInf) \<and> (\<forall>c\<in>set pre. D c = PosInf)) \<or>
     (\<exists>i<length pre. acc = (Some (pre ! i), D (pre ! i)) \<and>
        (\<forall>j<length pre. float_le (D (pre ! i)) (D (pre ! j))) \<and>
        (\<forall>j<i. float_lt (D (pre ! i)) (D (pre ! j))))"
  assumes "\<forall>c\<in>set rest. D c \<noteq> NaN" and "\<forall>c\<in>set pre. D c \<noteq> NaN" and "P pre acc"
  shows "P (pre @ rest) (nearest_loop sdist shape rest acc)"
  using assms(3-5)
proof (induction rest arbitrary: pre acc)
  case Nil
  then show ?case by simp
next
  case (Cons x rest)
  obtain nf ds where acc: "acc = (nf, ds)" by (cases acc)
  have x: "D x \<noteq> NaN" using Cons.prems(1) by simp
  have pre: "D (pre ! j) \<noteq> NaN" if "j < length pre" for j
    using Cons.prems(2) that by simp
  let ?acc' = "if float_lt (D x) ds then (Some x, D x) else (nf, ds)"
  have step: "P (pre @ [x]) ?acc'"
  proof (cases "acc = (None, PosInf) \<and> (\<forall>c\<in>set pre. D c = PosInf)")
    case True
    then have init: "nf = None" "ds = PosInf" and inf: "\<forall>c\<in>set pre. D c = PosInf"
      using acc by auto
    show ?thesis
    proof (cases "float_lt (D x) PosInf")
      case True
      have "\<forall>j<length (pre @ [x]). float_le (D x) (D ((pre @ [x]) ! j))"
        using True inf x by (auto simp: nth_append less_Suc_eq float_le_refl float_lt_imp_le)
      moreover have "\<forall>j<length pre. float_lt (D x) (D ((pre @ [x]) ! j))"
        using True inf by (auto simp: nth_append)
      ultimately have "\<exists>k<length (pre @ [x]).
        (Some x, D x) = (Some ((pre @ [x]) ! k), D ((pre @ [x]) ! k)) \<and>
        (\<forall>j<length (pre @ [x]). float_le (D ((pre @ [x]) ! k)) (D ((pre @ [x]) ! j))) \<and>
        (\<forall>j<k. float_lt (D ((pre @ [x]) ! k)) (D ((pre @ [x]) ! j)))"
        by (intro exI[of _ "length pre"]) simp
      then show ?thesis using True init by (simp add: P_def)
    next
      case False
      then have "D x = PosInf" using x by (simp add: float_not_lt_PosInf)
      then show ?thesis using False init inf by (simp add: P_def)
    qed
  next
    case False
    with Cons.prems(3) acc obtain i where i: "i < length pre" "nf = Some (pre ! i)"
      "ds = D (pre ! i)" "\<forall>j<length pre. float_le (D (pre ! i)) (D (pre ! j))"
      "\<forall>j<i. float_lt (D (pre ! i)) (D (pre ! j))"
      by (auto simp: P_def)
    show ?thesis
    proof (cases "float_lt (D x) (D (pre ! i))")
      case True
      have lt: "\<forall>j<length pre. float_lt (D x) (D (pre ! j))"
        using True i(4) by (auto intro: float_lt_le_trans)
      then have "\<forall>j<length (pre @ [x]). float_le (D x) (D ((pre @ [x]) ! j))"
        using x by (auto simp: nth_append less_Suc_eq float_le_refl float_lt_imp_le)
      moreover have "\<forall>j<length pre. float_lt (D x) (D ((pre @ [x]) ! j))"
        using lt by (auto simp: nth_append)
      ultimately have "\<exists>k<length (pre @ [x]).
        (Some x, D x) = (Some ((pre @ [x]) ! k), D ((pre @ [x]) ! k)) \<and>
        (\<forall>j<length (pre @ [x]). float_le (D ((pre @ [x]) ! k)) (D ((pre @ [x]) ! j))) \<and>
        (\<forall>j<k. float_lt (D ((pre @ [x]) ! k)) (D ((pre @ [x]) ! j)))"
        by (intro exI[of _ "length pre"]) simp
      then show ?thesis using True i(3) by (simp add: P_def)
    next
      case False
      then have "float_le (D (pre ! i)) (D x)"
        using x pre[OF i(1)] by (simp add: float_not_lt_le)
      then have "\<forall>j<length (pre @ [x]). float_le (D (pre ! i)) (D ((pre @ [x]) ! j))"
        using i(4) by (auto simp: nth_append less_Suc_eq)
      moreover have "\<forall>j<i. float_lt (D (pre ! i)) (D ((pre @ [x]) ! j))"
        using i(1,5) by (auto simp: nth_append)
      ultimately have "\<exists>k<length (pre @ [x]).
        (nf, ds) = (Some ((pre @ [x]) ! k), D ((pre @ [x]) ! k)) \<and>
        (\<forall>j<length (pre @ [x]). float_le (D ((pre @ [x]) ! k)) (D ((pre @ [x]) ! j))) \<and>
        (\<forall>j<k. float_lt (D ((pre @ [x]) ! k)) (D ((pre @ [x]) ! j)))"
        using i(1,2,3) by (intro exI[of _ i]) (simp add: nth_append)
      then show ?thesis using False i(3) by (simp add: P_def)
    qed
  qed
  have "nearest_loop sdist shape (x # rest) acc = nearest_loop sdist shape rest ?acc'"
    by (simp add: acc D_def Let_def)
  moreover have "P ((pre @ [x]) @ rest) (nearest_loop sdist shape rest ?acc')"
    using Cons.prems(1,2) x by (intro Cons.IH[OF _ _ step]) auto
  ultimately show ?case by simp
qed

text \<open>
  C1, as the code has it. \<open>find_nearest_feature\<close> returns \<open>(None, +infinity)\<close> for the empty
  candidate list. For a candidate list none of whose distances from the target is NaN
  and at least one of whose distances is not \<open>+infinity\<close>, it returns a candidate (the one
  at some index \<open>i\<close>) together with its distance from the target; that distance is
  \<open><=\<close> the distance of every candidate and \<open><\<close> the distance of every candidate before
  \<open>i\<close>, so that among the candidates at minimal distance the earliest is returned.
\<close>

theorem find_nearest_feature_spec:
  "find_nearest_feature sdist target [] = (None, PosInf) \<and>
   ((\<forall>c\<in>set candidates. sdist (geometry target) (geometry c) \<noteq> NaN) \<and>
    (\<exists>c\<in>set candidates. sdist (geometry target) (geometry c) \<noteq> PosInf) \<longrightarrow>
     (\<exists>i<length candidates.
        find_nearest_feature sdist target candidates =
          (Some (candidates ! i), sdist (geometry target) (geometry (candidates ! i))) \<and>
        (\<forall>j<length candidates.
           float_le (sdist (geometry target) (geometry (candidates ! i)))
                    (sdist (geometry target) (geometry (candidates ! j)))) \<and>
        (\<forall>j<i. float_lt (sdist (geometry target) (geometry (candidates ! i)))
                        (sdist (geometry target) (geometry (candidates ! j))))))"
proof (intro conjI impI)
  show "find_nearest_feature sdist target [] = (None, PosInf)"
    by (simp add: find_nearest_feature_def)
next
  assume h: "(\<forall>c\<in>set candidates. sdist (geometry target) (geometry c) \<noteq> NaN) \<and>
    (\<exists>c\<in>set candidates. sdist (geometry target) (geometry c) \<noteq> PosInf)"
  then have "\<forall>c\<in>set candidates. sdist (geometry target) (geometry c) \<noteq> NaN" ..
  from nearest_loop_inv[of candidates sdist "geometry target" "[]" "(None, PosInf)", OF this]
  show "\<exists>i<length candidates.
        find_nearest_feature sdist target candidates =
          (Some (candidates ! i), sdist (geometry target) (geometry (candidates ! i))) \<and>
        (\<forall>j<length candidates.
           float_le (sdist (geometry target) (geometry (candidates ! i)))
                    (sdist (geometry target) (geometry (candidates ! j)))) \<and>
        (\<forall>j<i. float_lt (sdist (geometry target) (geometry (candidates ! i)))
                        (sdist (geometry target) (geometry (candidates ! j))))"
    using h by (auto simp: find_nearest_feature_def)
qed

text \<open>
  Candidates at 5, 2, 4 and 1 on a line and the target at 3: the candidates at 2 and at 4
  are both at distance 1, and the one at 2 comes first.
\<close>

theorem find_nearest_feature_spec_witness:
  "find_nearest_feature (\<lambda>a b. Finite \<bar>a - b\<bar>) (pt 3) [pt 5, pt 2, pt 4, pt 1] =
     (Some (pt 2), Finite 1)"
proof -
  let ?d = "\<lambda>a b :: real. Finite \<bar>a - b\<bar>"
  let ?cs = "[pt 5, pt 2, pt 4, pt 1]"
  have h: "(\<forall>c\<in>set ?cs. ?d (geometry (pt 3)) (geometry c) \<noteq> NaN) \<and>
    (\<exists>c\<in>set ?cs. ?d (geometry (pt 3)) (geometry c) \<noteq> PosInf)"
    by auto
  from find_nearest_feature_spec[of ?d "pt 3" ?cs, THEN conjunct2, rule_format, OF h]
  obtain i where "find_nearest_feature ?d (pt 3) ?cs =
      (Some (?cs ! i), ?d (geometry (pt 3)) (geometry (?cs ! i)))"
    by blast
  moreover have "find_nearest_feature ?d (pt 3) ?cs = (Some (pt 2), Finite 1)"
    by (simp add: find_nearest_feature_def pt_def)
  ultimately show ?thesis by simp
qed

text \<open>
  A candidate whose distance from the target is NaN (an empty geometry): \<open>nan < inf\<close> is
  False, so the non-empty candidate list gives \<open>(None, +infinity)\<close>.
\<close>

theorem find_nearest_feature_nan_counterexample:
  "[pt 5] \<noteq> [] \<and> find_nearest_feature (\<lambda>a b. NaN) (pt 3) [pt 5] = (None, PosInf)"
  by (simp add: find_nearest_feature_def)

section \<open>The block range\<close>

lemma mapM_Inr: "map f xs = map Inr ys \<Longrightarrow> mapM f xs = Inr ys"
proof (induction xs arbitrary: ys)
  case Nil
  then show ?case by simp
next
  case (Cons x xs)
  then obtain y ys' where ys: "ys = y # ys'" "f x = Inr y" "map f xs = map Inr ys'"
    by (cases ys) auto
  with Cons.IH[of ys'] show ?case by simp
qed

lemma min_loop_ints: "min_loop (VInt b) (map VInt xs) = Inr (VInt (Min (set (b # xs))))"
proof (induction xs arbitrary: b)
  case Nil
  then show ?case by simp
next
  case (Cons x xs)
  have "min_loop (VInt b) (map VInt (x # xs)) = min_loop (VInt (min x b)) (map VInt xs)"
    by (simp add: min_def)
  also have "\<dots> = Inr (VInt (Min (set (min x b # xs))))" by (rule Cons.IH)
  also have "Min (set (min x b # xs)) = Min (set (b # x # xs))"
    by (cases "xs = []") (auto simp: min.commute min.assoc min.left_commute)
  finally show ?case .
qed

lemma max_loop_ints: "max_loop (VInt b) (map VInt xs) = Inr (VInt (Max (set (b # xs))))"
proof (induction xs arbitrary: b)
  case Nil
  then show ?case by simp
next
  case (Cons x xs)
  have "max_loop (VInt b) (map VInt (x # xs)) = max_loop (VInt (max x b)) (map VInt xs)"
    by (simp add: max_def)
  also have "\<dots> = Inr (VInt (Max (set (max x b # xs))))" by (rule Cons.IH)
  also have "Max (set (max x b # xs)) = Max (set (b # x # xs))"
    by (cases "xs = []") (auto simp: max.commute max.assoc max.left_commute)
  finally show ?case .
qed

lemma py_min_ints: "xs \<noteq> [] \<Longrightarrow> py_min (map VInt xs) = Inr (VInt (Min (set xs)))"
  by (cases xs) (simp_all only: list.map py_min.simps min_loop_ints, simp)

lemma py_max_ints: "xs \<noteq> [] \<Longrightarrow> py_max (map VInt xs) = Inr (VInt (Max (set xs)))"
  by (cases xs) (simp_all only: list.map py_max.simps max_loop_ints, simp)

text \<open>
  The double nearest to \<open>n / 100\<close>. For \<open>1 \<le> n < 2 ^ 52\<close> the doubles around the quotient
  are at most \<open>1 / 128\<close> apart, so the double is within \<open>1 / 256\<close> of the quotient, and it is
  the quotient itself when that is an integer: its floor and its ceiling are those of
  the exact quotient.
\<close>

lemma round_half_even_close: "\<bar>of_int (round_half_even y) - y\<bar> \<le> 1 / 2"
proof -
  have "of_int \<lfloor>y\<rfloor> \<le> y" "y < of_int \<lfloor>y\<rfloor> + 1" by linarith+
  then show ?thesis by (auto simp: round_half_even_def Let_def)
qed

lemma round_half_even_of_int: "round_half_even (of_int k) = k"
  by (simp add: round_half_even_def)

lemma binary_exponent_le:
  assumes "1 \<le> n"
  shows "2 powi (binary_exponent n) \<le> (of_int n :: real) / 100"
proof -
  let ?m = "n * 128 div 100"
  have m: "0 < ?m" using assms by simp
  have b1: "1 \<le> bitlen ?m" using m bitlen_eq_zero_iff[of ?m] bitlen_nonneg[of ?m] by linarith
  from bitlen_bounds[OF m] have "(2::int) ^ nat (bitlen ?m - 1) \<le> ?m" ..
  also have "?m * 100 \<le> n * 128" by simp
  finally have "(2::int) ^ nat (bitlen ?m - 1) * 100 \<le> n * 128" by simp
  then have "(of_int ((2::int) ^ nat (bitlen ?m - 1) * 100) :: real) \<le> of_int (n * 128)"
    by (rule of_int_le_iff[THEN iffD2])
  then have le: "(2::real) ^ nat (bitlen ?m - 1) \<le> of_int n / 100 * 128" by simp
  have "2 powi (binary_exponent n) = (2::real) powi (bitlen ?m - 1) / 2 powi 7"
    by (simp add: binary_exponent_def power_int_diff)
  also have "(2::real) powi (bitlen ?m - 1) = 2 ^ nat (bitlen ?m - 1)"
    using b1 by (simp add: power_int_def)
  also have "(2::real) powi 7 = 128" by (simp add: power_int_def)
  finally show ?thesis using le by simp
qed

lemma double_of_quotient100_small:
  assumes "1 \<le> n" and "n < 2 ^ 52"
  shows "\<bar>double_of_quotient100 n - of_int n / 100\<bar> \<le> 1 / 256"
    and "100 dvd n \<Longrightarrow> double_of_quotient100 n = of_int n / 100"
proof -
  define e where "e = binary_exponent n - 52"
  define p :: real where "p = 2 ^ nat (- e)"
  have "2 powi (binary_exponent n) \<le> (of_int n :: real) / 100" using assms(1) by (rule binary_exponent_le)
  also have "(of_int n :: real) / 100 < 2 ^ 52 / 100" using assms(2) by simp
  also have "\<dots> < (2::real) powi 46" by (simp add: power_int_def)
  finally have lt46: "(2::real) powi (binary_exponent n) < 2 powi 46" .
  have "binary_exponent n < 46"
  proof (rule ccontr)
    assume "\<not> binary_exponent n < 46"
    then have "(2::real) powi 46 \<le> 2 powi (binary_exponent n)"
      by (intro power_int_increasing) auto
    with lt46 show False by simp
  qed
  then have e: "e \<le> - 7" by (simp add: e_def)
  then have pe: "2 powi e = 1 / p" by (simp add: power_int_def p_def inverse_eq_divide power_one_over)
  have "(2::real) ^ 7 \<le> 2 ^ nat (- e)" using e by (intro power_increasing) auto
  then have p: "128 \<le> p" by (simp add: p_def)
  have p0: "0 < p" using p by simp
  define y :: real where "y = of_int n / 100 * p"
  have y: "of_int n / 100 / 2 powi e = y" using p0 by (simp add: pe y_def)
  have d: "double_of_quotient100 n = of_int (round_half_even y) / p"
    unfolding double_of_quotient100_def Let_def e_def[symmetric] y by (simp add: pe)
  have q: "of_int n / 100 = y / p" using p0 by (simp add: y_def)
  have "double_of_quotient100 n - of_int n / 100 = (of_int (round_half_even y) - y) / p"
    unfolding d q by (simp add: diff_divide_distrib)
  then have "\<bar>double_of_quotient100 n - of_int n / 100\<bar> = \<bar>of_int (round_half_even y) - y\<bar> / p"
    using p0 by (simp add: abs_divide)
  also have "\<dots> \<le> (1 / 2) / p"
    using p0 round_half_even_close[of y] by (intro divide_right_mono) auto
  also have "\<dots> \<le> 1 / 256" using p by (simp add: field_simps)
  finally show "\<bar>double_of_quotient100 n - of_int n / 100\<bar> \<le> 1 / 256" .
  show "double_of_quotient100 n = of_int n / 100" if "100 dvd n"
  proof -
    from that obtain k where k: "n = 100 * k" by (auto simp: dvd_def)
    have "y = of_int (k * 2 ^ nat (- e))" by (simp add: y_def k p_def)
    then have "round_half_even y = k * 2 ^ nat (- e)" by (simp only: round_half_even_of_int)
    then have "double_of_quotient100 n = of_int (k * 2 ^ nat (- e)) / p" by (simp only: d)
    also have "\<dots> = of_int k" using p0 by (simp add: p_def)
    also have "\<dots> = of_int n / 100" by (simp add: k)
    finally show ?thesis .
  qed
qed

lemma floor_ceiling_near:
  fixes d :: real and n :: int
  assumes "\<bar>d - of_int n / 100\<bar> \<le> 1 / 256" and "100 dvd n \<Longrightarrow> d = of_int n / 100"
  shows "\<lfloor>d\<rfloor> = n div 100" and "\<lceil>d\<rceil> = - ((- n) div 100)"
proof -
  define k where "k = n div 100"
  define r where "r = n mod 100"
  have n: "n = 100 * k + r" and r: "0 \<le> r" "r < 100" by (simp_all add: k_def r_def)
  have q: "(of_int n :: real) / 100 = of_int k + of_int r / 100" by (simp add: n)
  have "\<lfloor>d\<rfloor> = k \<and> \<lceil>d\<rceil> = - ((- n) div 100)"
  proof (cases "r = 0")
    case True
    then have "100 dvd n" using n by simp
    with assms(2) have "d = of_int k" using q True by simp
    moreover have "- ((- n) div 100) = k" using n True by simp
    ultimately show ?thesis by simp
  next
    case False
    then have r1: "1 \<le> r" "r \<le> 99" using r by auto
    then have "(1::real) \<le> of_int r" "(of_int r :: real) \<le> 99" by (simp_all add: of_int_le_iff[of 1 r, simplified] of_int_le_iff[of r 99, simplified])
    moreover have "d - (of_int k + of_int r / 100) \<le> 1 / 256"
      "- (1 / 256) \<le> d - (of_int k + of_int r / 100)"
      using assms(1) unfolding q by linarith+
    ultimately have lo: "of_int k < d" and hi: "d < of_int k + 1" by linarith+
    have "\<lfloor>d\<rfloor> = k" using lo hi by linarith
    moreover have "\<lceil>d\<rceil> = k + 1" using lo hi by linarith
    moreover have "- ((- n) div 100) = k + 1" using n r1 by (simp add: k_def)
    ultimately show ?thesis by simp
  qed
  then show "\<lfloor>d\<rfloor> = n div 100" and "\<lceil>d\<rceil> = - ((- n) div 100)" by (simp_all add: k_def)
qed

lemma truediv100_small:
  assumes "\<bar>i\<bar> < 2 ^ 52"
  shows "\<exists>r. truediv100 (VInt i) = Inr (Finite r) \<and> \<lfloor>r\<rfloor> = i div 100 \<and> \<lceil>r\<rceil> = - ((- i) div 100)"
proof (cases "i = 0")
  case True
  then show ?thesis by simp
next
  case False
  let ?n = "\<bar>i\<bar>"
  let ?d = "double_of_quotient100 ?n"
  have n: "1 \<le> ?n" "?n < 2 ^ 52" using False assms by auto
  note s = double_of_quotient100_small[OF n]
  have fl: "\<lfloor>?d\<rfloor> = ?n div 100" and ce: "\<lceil>?d\<rceil> = - ((- ?n) div 100)"
    using floor_ceiling_near[OF s] by auto
  have "(of_int ?n :: real) < 2 ^ 52" using n(2) by (metis of_int_less_iff of_int_numeral of_int_power)
  moreover have "?d - of_int ?n / 100 \<le> 1 / 256" using s(1) by linarith
  moreover have "(0::real) \<le> of_int ?n" by simp
  moreover have "(2::real) ^ 52 = 4503599627370496" by simp
  ultimately have "?d < 2 ^ 52" by linarith
  also have "(2::real) ^ 52 \<le> 2 ^ 1024" by (intro power_increasing) auto
  finally have no: "\<not> ?d \<ge> 2 ^ 1024" by simp
  show ?thesis
  proof (cases "i < 0")
    case True
    then have "truediv100 (VInt i) = Inr (Finite (- ?d))" using no False by (simp add: Let_def)
    moreover have "\<lfloor>- ?d\<rfloor> = i div 100" using fl ce True by (simp add: floor_minus)
    moreover have "\<lceil>- ?d\<rceil> = - ((- i) div 100)" using fl ce True by (simp add: ceiling_minus)
    ultimately show ?thesis by blast
  next
    case False
    then have "truediv100 (VInt i) = Inr (Finite ?d)" using no \<open>i \<noteq> 0\<close> by (simp add: Let_def)
    moreover have "\<lfloor>?d\<rfloor> = i div 100" "\<lceil>?d\<rceil> = - ((- i) div 100)" using fl ce False by simp_all
    ultimately show ?thesis by blast
  qed
qed

text \<open>
  On segments whose two block attributes are integers below \<open>2 ^ 52\<close> in absolute value
  (\<open>froms\<close> and \<open>tos\<close>, in the order of the segments), \<open>block_range\<close> raises nothing and its
  result is the one of integer division.
\<close>

lemma block_range_ints:
  assumes "segments \<noteq> []"
    and "map (\<lambda>s. attribute s ''LEFT_BLOCK_FROM'') segments = map (\<lambda>a. Inr (VInt a)) froms"
    and "map (\<lambda>s. attribute s ''LEFT_BLOCK_TO'') segments = map (\<lambda>b. Inr (VInt b)) tos"
    and "\<forall>a\<in>set froms. \<bar>a\<bar> < 2 ^ 52"
    and "\<forall>b\<in>set tos. \<bar>b\<bar> < 2 ^ 52"
  shows "block_range segments =
           Inr (Min (set froms) div 100 * 100, - ((- Max (set tos)) div 100) * 100)"
proof -
  have f: "mapM (\<lambda>s. attribute s ''LEFT_BLOCK_FROM'') segments = Inr (map VInt froms)"
    using assms(2) by (intro mapM_Inr) simp
  have t: "mapM (\<lambda>s. attribute s ''LEFT_BLOCK_TO'') segments = Inr (map VInt tos)"
    using assms(3) by (intro mapM_Inr) simp
  have "length froms = length segments" using assms(2) by (metis length_map)
  then have fne: "froms \<noteq> []" using assms(1) by auto
  have "length tos = length segments" using assms(3) by (metis length_map)
  then have tne: "tos \<noteq> []" using assms(1) by auto
  have "Min (set froms) \<in> set froms" using fne by (intro Min_in) auto
  then have "\<bar>Min (set froms)\<bar> < 2 ^ 52" using assms(4) by blast
  from truediv100_small[OF this] obtain r where
    r: "truediv100 (VInt (Min (set froms))) = Inr (Finite r)"
       "\<lfloor>r\<rfloor> = Min (set froms) div 100" by blast
  have "Max (set tos) \<in> set tos" using tne by (intro Max_in) auto
  then have "\<bar>Max (set tos)\<bar> < 2 ^ 52" using assms(5) by blast
  from truediv100_small[OF this] obtain u where
    u: "truediv100 (VInt (Max (set tos))) = Inr (Finite u)"
       "\<lceil>u\<rceil> = - ((- Max (set tos)) div 100)" by blast
  show ?thesis
    by (simp add: block_range_def bind_err_def f t py_min_ints[OF fne] py_max_ints[OF tne] r u
        del: truediv100.simps)
qed

text \<open>
  C3, as the code has it. For a non-empty list of segments whose \<open>LEFT_BLOCK_FROM\<close>
  attributes are the integers \<open>froms\<close> and whose \<open>LEFT_BLOCK_TO\<close> attributes are the
  integers \<open>tos\<close>, all below \<open>2 ^ 52\<close> in absolute value, \<open>block_range\<close> returns
  \<open>(start, end)\<close> where \<open>start\<close> is the multiple of 100 with
  \<open>start \<le> min froms < start + 100\<close> (the minimum rounded down) and \<open>end\<close> is the multiple
  of 100 with \<open>max tos \<le> end < max tos + 100\<close> (the maximum rounded up).
\<close>

theorem block_range_spec:
  assumes "segments \<noteq> []"
    and "map (\<lambda>s. attribute s ''LEFT_BLOCK_FROM'') segments = map (\<lambda>a. Inr (VInt a)) froms"
    and "map (\<lambda>s. attribute s ''LEFT_BLOCK_TO'') segments = map (\<lambda>b. Inr (VInt b)) tos"
    and "\<forall>a\<in>set froms. \<bar>a\<bar> < 2 ^ 52"
    and "\<forall>b\<in>set tos. \<bar>b\<bar> < 2 ^ 52"
  shows "\<exists>start end. block_range segments = Inr (start, end) \<and>
           100 dvd start \<and> start \<le> Min (set froms) \<and> Min (set froms) < start + 100 \<and>
           100 dvd end \<and> Max (set tos) \<le> end \<and> end < Max (set tos) + 100"
proof -
  let ?lo = "Min (set froms)" and ?hi = "Max (set tos)"
  have "block_range segments = Inr (?lo div 100 * 100, - ((- ?hi) div 100) * 100)"
    using assms by (rule block_range_ints)
  moreover have "100 dvd ?lo div 100 * 100" "?lo div 100 * 100 \<le> ?lo"
    "?lo < ?lo div 100 * 100 + 100"
    by presburger+
  moreover have "100 dvd - ((- ?hi) div 100) * 100" "?hi \<le> - ((- ?hi) div 100) * 100"
    "- ((- ?hi) div 100) * 100 < ?hi + 100"
    by presburger+
  ultimately show ?thesis by blast
qed

text \<open>A single segment with the block range 1210 to 1240 gives \<open>(1200, 1300)\<close>.\<close>

theorem block_range_spec_witness:
  "[Some (seg ''MAIN ST'' 1210 1240 7)] \<noteq> [] \<and>
   map (\<lambda>s. attribute s ''LEFT_BLOCK_FROM'') [Some (seg ''MAIN ST'' 1210 1240 7)]
     = map (\<lambda>a. Inr (VInt a)) [1210] \<and>
   map (\<lambda>s. attribute s ''LEFT_BLOCK_TO'') [Some (seg ''MAIN ST'' 1210 1240 7)]
     = map (\<lambda>b. Inr (VInt b)) [1240] \<and>
   block_range [Some (seg ''MAIN ST'' 1210 1240 7)] = Inr (1200, 1300)"
proof -
  let ?segs = "[Some (seg ''MAIN ST'' 1210 1240 7)]"
  have h1: "?segs \<noteq> []" by simp
  have h2: "map (\<lambda>s. attribute s ''LEFT_BLOCK_FROM'') ?segs = map (\<lambda>a. Inr (VInt a)) [1210]"
    by (simp add: seg_def attribute_def getitem_def)
  have h3: "map (\<lambda>s. attribute s ''LEFT_BLOCK_TO'') ?segs = map (\<lambda>b. Inr (VInt b)) [1240]"
    by (simp add: seg_def attribute_def getitem_def)
  have h4: "\<forall>a\<in>set [1210 :: int]. \<bar>a\<bar> < 2 ^ 52" by simp
  have h5: "\<forall>b\<in>set [1240 :: int]. \<bar>b\<bar> < 2 ^ 52" by simp
  from block_range_spec[OF h1 h2 h3 h4 h5] obtain s e where
    r: "block_range ?segs = Inr (s, e)" and
    "100 dvd s" "s \<le> 1210" "1210 < s + 100" "100 dvd e" "1240 \<le> e" "e < 1240 + 100"
    by auto
  then have "s = 1200" "e = 1300" by presburger+
  with r h1 h2 h3 show ?thesis by simp
qed

text \<open>
  A block end of \<open>10 ^ 18 + 1\<close>: the quotient by 100 is rounded to the double \<open>10 ^ 16\<close>, so
  the computed end \<open>10 ^ 18\<close> is below the maximum.
\<close>

lemma truediv100_1210: "\<exists>r. truediv100 (VInt 1210) = Inr (Finite r) \<and> \<lfloor>r\<rfloor> = 12"
  using truediv100_small[of 1210] by auto

lemma truediv100_big:
  "truediv100 (VInt 1000000000000000001) = Inr (Finite 10000000000000000)"
  by code_simp

theorem block_range_big_counterexample:
  "block_range [Some (seg ''MAIN ST'' 1210 1000000000000000001 7)] =
     Inr (1200, 1000000000000000000) \<and>
   (1000000000000000000 :: int) < Max (set [1000000000000000001])"
proof -
  from truediv100_1210 obtain r where
    r: "truediv100 (VInt 1210) = Inr (Finite r)" "\<lfloor>r\<rfloor> = 12" by blast
  have "block_range [Some (seg ''MAIN ST'' 1210 1000000000000000001 7)] =
     Inr (1200, 1000000000000000000)"
    by (simp add: block_range_def bind_err_def seg_def attribute_def getitem_def r
        truediv100_big del: truediv100.simps)
  then show ?thesis by simp
qed

section \<open>The engineer note\<close>

text \<open>
  C6. When the six keys the function reads are present, \<open>construct_engineer_note\<close>
  distinguishes exactly three \<open>INSTRUCTIONS\<close> values. For \<open>REPLACE\<close> and \<open>INSTALL\<close> the note
  is the action line, the future-speed-limit line (\<open>Speed limit:\<close>), the sign-size line
  (\<open>Size:\<close>), the custom-sign line if \<open>CUSTOM_SIGN\<close> is truthy and the comment line if
  \<open>COMMENTS\<close> is truthy, and nothing else (no current-speed-limit line). For \<open>REMOVE\<close> it
  is the action line, the current-speed-limit line (\<open>Speed Limit:\<close>) and the comment line
  if \<open>COMMENTS\<close> is truthy, and nothing else (no future-speed-limit or sign-size line).
  Any other value raises the script's own \<open>ValueError\<close>, whose message ends with that
  value.
\<close>

theorem construct_engineer_note_spec:
  assumes "data ''INSTRUCTIONS'' = Some a"
    and "data ''COMMENTS'' = Some c"
    and "data ''CURRENT_SPEED_LIMIT'' = Some cur"
    and "data ''FUTURE_SPEED_LIMIT'' = Some fut"
    and "data ''CUSTOM_SIGN'' = Some cs"
    and "data ''SIGN_TYPE'' = Some st"
  shows "construct_engineer_note data =
     (if a = VStr ''REPLACE'' \<or> a = VStr ''INSTALL''
      then Inr (''Action: '' @ py_str a @ newline @
                ''Speed limit: '' @ py_str fut @ newline @
                ''Size: '' @ py_str st @ newline @
                (if truthy cs then ''Custom sign: '' @ py_str cs @ newline else []) @
                (if truthy c then ''Note: '' @ py_str c @ newline else []))
      else if a = VStr ''REMOVE''
      then Inr (''Action: '' @ py_str a @ newline @
                ''Speed Limit: '' @ py_str cur @ newline @
                (if truthy c then ''Note: '' @ py_str c @ newline else []))
      else Inl (Error RaiseStmt ValueError
                  (''Unknown INSTRUCTIONS value for sign feature: '' @ py_str a)))"
  using assms by (simp add: construct_engineer_note_def bind_err_def getitem_def Let_def)

text \<open>
  A sign with current limit 30, future limit 25, a size, a comment and no custom sign,
  with the instructions \<open>REMOVE\<close>, \<open>INSTALL\<close> and \<open>RELOCATE\<close>.
\<close>

theorem construct_engineer_note_spec_witness:
  "construct_engineer_note (sign_data ''REMOVE'') =
     Inr (''Action: REMOVE'' @ newline @ ''Speed Limit: 30'' @ newline @
          ''Note: near school'' @ newline) \<and>
   construct_engineer_note (sign_data ''INSTALL'') =
     Inr (''Action: INSTALL'' @ newline @ ''Speed limit: 25'' @ newline @
          ''Size: 24x30'' @ newline @ ''Note: near school'' @ newline) \<and>
   construct_engineer_note (sign_data ''RELOCATE'') =
     Inl (Error RaiseStmt ValueError ''Unknown INSTRUCTIONS value for sign feature: RELOCATE'')"
proof -
  have h: "sign_data instr ''INSTRUCTIONS'' = Some (VStr instr)"
    "sign_data instr ''COMMENTS'' = Some (VStr ''near school'')"
    "sign_data instr ''CURRENT_SPEED_LIMIT'' = Some (VInt 30)"
    "sign_data instr ''FUTURE_SPEED_LIMIT'' = Some (VInt 25)"
    "sign_data instr ''CUSTOM_SIGN'' = Some VNone"
    "sign_data instr ''SIGN_TYPE'' = Some (VStr ''24x30'')" for instr
    by (simp_all add: sign_data_def)
  have d: "str_int 30 = ''30''" "str_int 25 = ''25''" by code_simp+
  show ?thesis
    using construct_engineer_note_spec[OF h[of "''REMOVE''"]]
      construct_engineer_note_spec[OF h[of "''INSTALL''"]]
      construct_engineer_note_spec[OF h[of "''RELOCATE''"]]
    by (simp add: d)
qed

text \<open>
  C9. All five keys \<open>COMMENTS\<close>, \<open>CURRENT_SPEED_LIMIT\<close>, \<open>FUTURE_SPEED_LIMIT\<close>, \<open>CUSTOM_SIGN\<close>
  and \<open>SIGN_TYPE\<close> are looked up before the function branches on \<open>INSTRUCTIONS\<close>: whatever
  the \<open>INSTRUCTIONS\<close> value, if one of the five is missing the function raises \<open>KeyError\<close>
  for the first missing one (in the order above), also when the note for that value
  would not use the key.
\<close>

theorem construct_engineer_note_all_keys:
  assumes "data ''INSTRUCTIONS'' = Some a"
    and "find (\<lambda>k. data k = None)
           [''COMMENTS'', ''CURRENT_SPEED_LIMIT'', ''FUTURE_SPEED_LIMIT'', ''CUSTOM_SIGN'',
            ''SIGN_TYPE''] = Some k"
  shows "construct_engineer_note data = Inl (Error Builtin KeyError k)"
  using assms
  by (auto simp: construct_engineer_note_def bind_err_def getitem_def Let_def
      split: if_splits option.splits)

text \<open>A \<open>REMOVE\<close> sign without \<open>FUTURE_SPEED_LIMIT\<close>, which the \<open>REMOVE\<close> note never shows.\<close>

theorem construct_engineer_note_all_keys_witness:
  "((sign_data ''REMOVE'')(''FUTURE_SPEED_LIMIT'' := None)) ''INSTRUCTIONS''
     = Some (VStr ''REMOVE'') \<and>
   find (\<lambda>k. ((sign_data ''REMOVE'')(''FUTURE_SPEED_LIMIT'' := None)) k = None)
     [''COMMENTS'', ''CURRENT_SPEED_LIMIT'', ''FUTURE_SPEED_LIMIT'', ''CUSTOM_SIGN'',
      ''SIGN_TYPE''] = Some ''FUTURE_SPEED_LIMIT'' \<and>
   construct_engineer_note ((sign_data ''REMOVE'')(''FUTURE_SPEED_LIMIT'' := None))
     = Inl (Error Builtin KeyError ''FUTURE_SPEED_LIMIT'')"
proof -
  let ?d = "(sign_data ''REMOVE'')(''FUTURE_SPEED_LIMIT'' := None)"
  have h1: "?d ''INSTRUCTIONS'' = Some (VStr ''REMOVE'')" by (simp add: sign_data_def)
  have h2: "find (\<lambda>k. ?d k = None)
     [''COMMENTS'', ''CURRENT_SPEED_LIMIT'', ''FUTURE_SPEED_LIMIT'', ''CUSTOM_SIGN'',
      ''SIGN_TYPE''] = Some ''FUTURE_SPEED_LIMIT''" by (simp add: sign_data_def)
  show ?thesis using h1 h2 construct_engineer_note_all_keys[OF h1 h2] by blast
qed

section \<open>The most common street name\<close>

text \<open>
  \<open>max\<close> with a key returns the first item whose key is maximal: every item before it
  has a strictly smaller key.
\<close>

lemma max_key_loop_first:
  "max_key_loop key best xs = m \<Longrightarrow>
     (m = best \<and> (\<forall>y\<in>set xs. key y \<le> key best)) \<or>
     (\<exists>pre post. xs = pre @ m # post \<and> key best < key m \<and>
        (\<forall>y\<in>set pre. key y < key m) \<and> (\<forall>y\<in>set post. key y \<le> key m))"
proof (induction xs arbitrary: best)
  case Nil
  then show ?case by simp
next
  case (Cons x xs)
  show ?case
  proof (cases "key x > key best")
    case True
    with Cons.prems have "max_key_loop key x xs = m" by simp
    from Cons.IH[OF this] show ?thesis
    proof
      assume a: "m = x \<and> (\<forall>y\<in>set xs. key y \<le> key x)"
      then have "x # xs = [] @ m # xs \<and> key best < key m \<and>
          (\<forall>y\<in>set []. key y < key m) \<and> (\<forall>y\<in>set xs. key y \<le> key m)"
        using True by simp
      then show ?thesis by blast
    next
      assume "\<exists>pre post. xs = pre @ m # post \<and> key x < key m \<and>
        (\<forall>y\<in>set pre. key y < key m) \<and> (\<forall>y\<in>set post. key y \<le> key m)"
      then obtain pre post where p: "xs = pre @ m # post" "key x < key m"
        "\<forall>y\<in>set pre. key y < key m" "\<forall>y\<in>set post. key y \<le> key m" by blast
      then have "x # xs = (x # pre) @ m # post \<and> key best < key m \<and>
          (\<forall>y\<in>set (x # pre). key y < key m) \<and> (\<forall>y\<in>set post. key y \<le> key m)"
        using True by auto
      then show ?thesis by blast
    qed
  next
    case False
    with Cons.prems have "max_key_loop key best xs = m" by simp
    from Cons.IH[OF this] show ?thesis
    proof
      assume "m = best \<and> (\<forall>y\<in>set xs. key y \<le> key best)"
      then show ?thesis using False by auto
    next
      assume "\<exists>pre post. xs = pre @ m # post \<and> key best < key m \<and>
        (\<forall>y\<in>set pre. key y < key m) \<and> (\<forall>y\<in>set post. key y \<le> key m)"
      then obtain pre post where p: "xs = pre @ m # post" "key best < key m"
        "\<forall>y\<in>set pre. key y < key m" "\<forall>y\<in>set post. key y \<le> key m" by blast
      then have "x # xs = (x # pre) @ m # post \<and> key best < key m \<and>
          (\<forall>y\<in>set (x # pre). key y < key m) \<and> (\<forall>y\<in>set post. key y \<le> key m)"
        using False by auto
      then show ?thesis by blast
    qed
  qed
qed

lemma py_max_key_first:
  assumes "py_max_key key xs = Inr m"
  shows "\<exists>pre post. xs = pre @ m # post \<and>
           (\<forall>y\<in>set pre. key y < key m) \<and> (\<forall>y\<in>set post. key y \<le> key m)"
proof (cases xs)
  case Nil
  with assms show ?thesis by simp
next
  case (Cons x xs')
  with assms have "max_key_loop key x xs' = m" by simp
  from max_key_loop_first[OF this] show ?thesis
  proof
    assume "m = x \<and> (\<forall>y\<in>set xs'. key y \<le> key x)"
    then have "xs = [] @ m # xs' \<and> (\<forall>y\<in>set []. key y < key m) \<and> (\<forall>y\<in>set xs'. key y \<le> key m)"
      using Cons by simp
    then show ?thesis by blast
  next
    assume "\<exists>pre post. xs' = pre @ m # post \<and> key x < key m \<and>
        (\<forall>y\<in>set pre. key y < key m) \<and> (\<forall>y\<in>set post. key y \<le> key m)"
    then obtain pre post where p: "xs' = pre @ m # post" "key x < key m"
        "\<forall>y\<in>set pre. key y < key m" "\<forall>y\<in>set post. key y \<le> key m" by blast
    then have "xs = (x # pre) @ m # post \<and> (\<forall>y\<in>set (x # pre). key y < key m) \<and>
       (\<forall>y\<in>set post. key y \<le> key m)"
      using Cons by auto
    then show ?thesis by blast
  qed
qed

lemma max_key_loop_mem: "max_key_loop key best xs \<in> set (best # xs)"
  by (induction xs arbitrary: best) (auto split: if_splits)

text \<open>
  The \<open>Counter\<close> of a list holds each item once, with its number of occurrences, in
  the order of first occurrence.
\<close>

lemma map_of_counter_add:
  "map_of (counter_add C k) =
     (map_of C)(k \<mapsto> (case map_of C k of None \<Rightarrow> 1 | Some c \<Rightarrow> c + 1))"
  by (induction C) (auto simp: fun_eq_iff)

lemma keys_counter_add:
  "map fst (counter_add C k) = (if k \<in> set (map fst C) then map fst C else map fst C @ [k])"
  by (induction C) (auto simp: rev_image_eqI)

lemma Counter_snoc: "Counter (xs @ [x]) = counter_add (Counter xs) x"
  by (simp add: Counter_def)

lemma map_of_Counter:
  "map_of (Counter xs) k = (if k \<in> set xs then Some (count_list xs k) else None)"
proof (induction xs arbitrary: k rule: rev_induct)
  case Nil
  then show ?case by (simp add: Counter_def)
next
  case (snoc x xs)
  then show ?case by (simp add: Counter_snoc map_of_counter_add)
qed

lemma set_keys_Counter: "set (map fst (Counter xs)) = set xs"
proof (induction xs rule: rev_induct)
  case Nil
  then show ?case by (simp add: Counter_def)
next
  case (snoc x xs)
  then show ?case by (auto simp: Counter_snoc keys_counter_add)
qed

lemma distinct_keys_Counter: "distinct (map fst (Counter xs))"
proof (induction xs rule: rev_induct)
  case Nil
  then show ?case by (simp add: Counter_def)
next
  case (snoc x xs)
  then show ?case by (simp add: Counter_snoc keys_counter_add)
qed

lemma keys_Counter_append:
  "\<exists>rest. map fst (Counter (ys @ zs)) = map fst (Counter ys) @ rest"
proof (induction zs rule: rev_induct)
  case Nil
  then show ?case by simp
next
  case (snoc z zs)
  then obtain rest where r: "map fst (Counter (ys @ zs)) = map fst (Counter ys) @ rest" by blast
  have "Counter (ys @ zs @ [z]) = counter_add (Counter (ys @ zs)) z"
    using Counter_snoc[of "ys @ zs" z] by simp
  then show ?case using r by (simp add: keys_counter_add)
qed

lemma Counter_entry:
  assumes "(k, c) \<in> set (Counter xs)"
  shows "k \<in> set xs \<and> c = count_list xs k"
proof -
  have "map_of (Counter xs) k = Some c"
    using assms distinct_keys_Counter by (rule map_of_is_SomeI[rotated])
  then show ?thesis by (simp add: map_of_Counter split: if_splits)
qed

lemma distinct_split_unique:
  assumes "distinct (as @ x # bs)" and "as @ x # bs = cs @ x # ds"
  shows "as = cs"
proof -
  have "x \<notin> set as" using assms(1) by auto
  moreover have "x \<notin> set cs" using assms by auto
  ultimately show ?thesis using assms(2)
  proof (induction as arbitrary: cs)
    case Nil
    then show ?case by (cases cs) auto
  next
    case (Cons a as)
    then show ?case by (cases cs) auto
  qed
qed

lemma most_common_mem:
  assumes "names \<noteq> []"
  shows "\<exists>n\<in>set names. most_common (Counter names) = Inr n"
proof -
  have "set (map fst (Counter names)) \<noteq> {}" using assms by (simp only: set_keys_Counter) simp
  then obtain e es where C: "Counter names = e # es" by (cases "Counter names") auto
  obtain n c where m: "max_key_loop snd e es = (n, c)" by (cases "max_key_loop snd e es")
  have "(n, c) \<in> set (Counter names)" using max_key_loop_mem[of snd e es] m C by simp
  from Counter_entry[OF this] have "n \<in> set names" by simp
  moreover have "most_common (Counter names) = Inr n"
    by (simp add: most_common_def bind_err_def C m)
  ultimately show ?thesis by blast
qed

text \<open>
  The selected name occurs in the list at some index \<open>i\<close>, no name occurs more often, and
  every name before index \<open>i\<close> occurs strictly less often.
\<close>

lemma most_common_first_max:
  assumes "names \<noteq> []"
  shows "\<exists>i<length names.
           most_common (Counter names) = Inr (names ! i) \<and>
           (\<forall>j<length names. count_list names (names ! j) \<le> count_list names (names ! i)) \<and>
           (\<forall>j<i. count_list names (names ! j) < count_list names (names ! i))"
proof -
  let ?C = "Counter names"
  have "set (map fst ?C) \<noteq> {}" using assms by (simp only: set_keys_Counter) simp
  then obtain e es where C: "?C = e # es" by (cases ?C) auto
  define m where "m = max_key_loop snd e es"
  have pm: "py_max_key snd ?C = Inr m" by (simp add: C m_def)
  from py_max_key_first[OF pm] obtain pre post where
    split: "?C = pre @ m # post" and
    before: "\<forall>y\<in>set pre. snd y < snd m" and
    after: "\<forall>y\<in>set post. snd y \<le> snd m" by blast
  obtain n c where m: "m = (n, c)" by (cases m)
  have "(n, c) \<in> set ?C" using split m by simp
  from Counter_entry[OF this] have n: "n \<in> set names" and c: "c = count_list names n" by auto
  have le: "count_list names k \<le> c" if "k \<in> set names" for k
  proof -
    from that have "k \<in> set (map fst ?C)" by (simp only: set_keys_Counter)
    then obtain c' where kc: "(k, c') \<in> set ?C" by auto
    from Counter_entry[OF kc] have "c' = count_list names k" by simp
    moreover have "c' \<le> c" using kc split before after m by (auto simp: less_imp_le)
    ultimately show ?thesis by simp
  qed
  from split_list_first[OF n] obtain ys zs where
    names: "names = ys @ n # zs" and nys: "n \<notin> set ys" by blast
  have keys_ys_n: "map fst (Counter (ys @ [n])) = map fst (Counter ys) @ [n]"
    using nys by (simp add: Counter_snoc keys_counter_add set_keys_Counter del: set_map)
  obtain rest where "map fst (Counter ((ys @ [n]) @ zs)) = map fst (Counter (ys @ [n])) @ rest"
    using keys_Counter_append by blast
  then have k1: "map fst ?C = map fst (Counter ys) @ n # rest"
    using names keys_ys_n by simp
  have k2: "map fst ?C = map fst pre @ n # map fst post" using split m by simp
  have "distinct (map fst pre @ n # map fst post)" using distinct_keys_Counter[of names] k2 by simp
  from distinct_split_unique[OF this] k1 k2 have pre: "map fst pre = map fst (Counter ys)"
    by simp
  have lt: "count_list names k < c" if "k \<in> set ys" for k
  proof -
    from that have "k \<in> set (map fst pre)" by (simp only: pre set_keys_Counter)
    then obtain c' where kc: "(k, c') \<in> set pre" by auto
    then have "(k, c') \<in> set ?C" using split by simp
    from Counter_entry[OF this] have "c' = count_list names k" by simp
    moreover have "c' < c" using kc before m by auto
    ultimately show ?thesis by simp
  qed
  let ?i = "length ys"
  have i: "?i < length names" "names ! ?i = n" using names by simp_all
  have "most_common ?C = Inr (names ! ?i)"
    using pm m i by (simp add: most_common_def bind_err_def)
  moreover have "\<forall>j<length names. count_list names (names ! j) \<le> count_list names (names ! ?i)"
    using le c i by simp
  moreover have "\<forall>j<?i. count_list names (names ! j) < count_list names (names ! ?i)"
  proof (intro allI impI)
    fix j assume "j < ?i"
    then have "names ! j \<in> set ys" using names by (simp add: nth_append)
    then show "count_list names (names ! j) < count_list names (names ! ?i)"
      using lt c i by simp
  qed
  ultimately show ?thesis using i(1) by blast
qed

section \<open>The location of a work order\<close>

lemma mapM_Inr_D: "mapM f xs = Inr ys \<Longrightarrow> map f xs = map Inr ys"
proof (induction xs arbitrary: ys)
  case Nil
  then show ?case by simp
next
  case (Cons x xs)
  then show ?case by (auto split: sum.splits)
qed

lemma filterM_name:
  "map f xs = map Inr ys \<Longrightarrow>
   filterM (\<lambda>s. bind_err (f s) (\<lambda>n. Inr (n = name))) xs = Inr (filter (\<lambda>s. f s = Inr name) xs)"
proof (induction xs arbitrary: ys)
  case Nil
  then show ?case by simp
next
  case (Cons x xs)
  then obtain y ys' where ys: "ys = y # ys'" "f x = Inr y" "map f xs = map Inr ys'"
    by (cases ys) auto
  with Cons.IH[of ys'] show ?case by (simp add: bind_err_def)
qed

lemma bind_err_Inr: "bind_err m f = Inr y \<longleftrightarrow> (\<exists>x. m = Inr x \<and> f x = Inr y)"
  by (cases m) (simp_all add: bind_err_def)

lemma map_ints_bounded:
  "\<forall>x\<in>set xs. \<exists>a. f x = Inr (VInt a) \<and> \<bar>a\<bar> < 2 ^ 52 \<Longrightarrow>
   \<exists>as. map f xs = map (\<lambda>a. Inr (VInt a)) as \<and> (\<forall>a\<in>set as. \<bar>a\<bar> < 2 ^ 52)"
proof (induction xs)
  case Nil
  then show ?case by simp
next
  case (Cons x xs)
  then obtain a as where "f x = Inr (VInt a)" "\<bar>a\<bar> < 2 ^ 52"
    "map f xs = map (\<lambda>a. Inr (VInt a)) as" "\<forall>a\<in>set as. \<bar>a\<bar> < 2 ^ 52" by auto
  then have "map f (x # xs) = map (\<lambda>a. Inr (VInt a)) (a # as) \<and> (\<forall>a\<in>set (a # as). \<bar>a\<bar> < 2 ^ 52)"
    by simp
  then show ?case by blast
qed

lemma filter_first:
  "i < length xs \<Longrightarrow> P (xs ! i) \<Longrightarrow> \<forall>j<i. \<not> P (xs ! j) \<Longrightarrow> \<exists>rest. filter P xs = xs ! i # rest"
proof (induction xs arbitrary: i)
  case Nil
  then show ?case by simp
next
  case (Cons x xs)
  show ?case
  proof (cases i)
    case 0
    with Cons.prems show ?thesis by simp
  next
    case (Suc k)
    with Cons.prems have "k < length xs" "P (xs ! k)" "\<forall>j<k. \<not> P (xs ! j)" "\<not> P x"
      by auto
    with Cons.IH[of k] Suc show ?thesis by simp
  qed
qed

lemma length_filter_names:
  "map f xs = map Inr names \<Longrightarrow> length (filter (\<lambda>s. f s = Inr n) xs) = count_list names n"
proof (induction xs arbitrary: names)
  case Nil
  then show ?case by simp
next
  case (Cons x xs)
  then obtain y ys where "names = y # ys" "f x = Inr y" "map f xs = map Inr ys"
    by (cases names) auto
  with Cons.IH[of ys] show ?case by auto
qed

text \<open>
  C4. Take a work order whose matched segments all carry a street name (the list
  \<open>names\<close>, in sign order, not empty), and let \<open>name\<close> be the selected most common name,
  \<open>matching\<close> the matched segments of that name and \<open>sid\<close> the \<open>SEGMENT_ID\<close> of the first
  of them. Then \<open>matching\<close> is not empty. Whenever \<open>(start, end)\<close> is the block range of
  \<open>matching\<close>, \<open>construct_location\<close> stores the location \<open>"{start} BLK {name}"\<close> if
  \<open>matching\<close> has exactly one segment and \<open>"{start}-{end} {name}"\<close> otherwise, and stores
  \<open>sid\<close> as the reference segment id. And \<open>matching\<close> has a block range when the block
  attributes of its segments are integers below \<open>2 ^ 52\<close> in absolute value.
\<close>

theorem construct_location_spec:
  assumes names: "map (\<lambda>s. attribute s ''FULL_STREET_NAME'') (sign_segments wo) = map Inr names"
    and ne: "sign_segments wo \<noteq> []"
    and name: "most_common (Counter names) = Inr name"
    and matching: "matching = filter (\<lambda>s. attribute s ''FULL_STREET_NAME'' = Inr name)
                            (sign_segments wo)"
    and sid: "attribute (hd matching) ''SEGMENT_ID'' = Inr sid"
  shows "matching \<noteq> [] \<and>
         (block_range matching = Inr (start, end) \<longrightarrow>
            construct_location wo =
              Inr (wo\<lparr>wo_attributes := (wo_attributes wo)
                     (''GENERATED_LOCATION_FROM_API'' \<mapsto>
                        VStr (if length matching = 1
                              then str_int start @ '' BLK '' @ py_str name
                              else str_int start @ ''-'' @ str_int end @ '' '' @ py_str name),
                      ''LOCATION_STREET_SEGMENT_ID_REFERENCE'' \<mapsto> sid)\<rparr>)) \<and>
         ((\<forall>s\<in>set matching.
             (\<exists>a. attribute s ''LEFT_BLOCK_FROM'' = Inr (VInt a) \<and> \<bar>a\<bar> < 2 ^ 52) \<and>
             (\<exists>b. attribute s ''LEFT_BLOCK_TO'' = Inr (VInt b) \<and> \<bar>b\<bar> < 2 ^ 52)) \<longrightarrow>
            (\<exists>s e. block_range matching = Inr (s, e)))"
proof (intro conjI impI)
  let ?segs = "sign_segments wo"
  let ?nm = "\<lambda>s::'a feature option. attribute s ''FULL_STREET_NAME''"
  have "length names = length ?segs" using names by (metis length_map)
  then have "names \<noteq> []" using ne by auto
  from most_common_mem[OF this] name have "name \<in> set names" by auto
  then have "Inr name \<in> set (map ?nm ?segs)" using names by simp
  then show sne: "matching \<noteq> []" by (auto simp: matching filter_empty_conv)
  {
    assume br: "block_range matching = Inr (start, end)"
    have m: "mapM ?nm ?segs = Inr names" using names by (rule mapM_Inr)
    have fm: "filterM (\<lambda>s. bind_err (?nm s) (\<lambda>n. Inr (n = name))) ?segs = Inr matching"
      unfolding matching using names by (rule filterM_name)
    have idx: "(case matching of [] \<Rightarrow> Inl (Error Builtin IndexError ''list index out of range'')
                | s # _ \<Rightarrow> attribute s ''SEGMENT_ID'') = Inr sid"
      using sne sid by (cases matching) auto
    show "construct_location wo =
              Inr (wo\<lparr>wo_attributes := (wo_attributes wo)
                     (''GENERATED_LOCATION_FROM_API'' \<mapsto>
                        VStr (if length matching = 1
                              then str_int start @ '' BLK '' @ py_str name
                              else str_int start @ ''-'' @ str_int end @ '' '' @ py_str name),
                      ''LOCATION_STREET_SEGMENT_ID_REFERENCE'' \<mapsto> sid)\<rparr>)"
      by (simp add: construct_location_def Let_def bind_err_def m name
          fm[unfolded bind_err_def] br idx)
  }
  {
    assume wf: "\<forall>s\<in>set matching.
             (\<exists>a. attribute s ''LEFT_BLOCK_FROM'' = Inr (VInt a) \<and> \<bar>a\<bar> < 2 ^ 52) \<and>
             (\<exists>b. attribute s ''LEFT_BLOCK_TO'' = Inr (VInt b) \<and> \<bar>b\<bar> < 2 ^ 52)"
    then have "\<forall>s\<in>set matching. \<exists>a. attribute s ''LEFT_BLOCK_FROM'' = Inr (VInt a) \<and> \<bar>a\<bar> < 2 ^ 52"
      by blast
    from map_ints_bounded[OF this] obtain froms where
      froms: "map (\<lambda>s. attribute s ''LEFT_BLOCK_FROM'') matching = map (\<lambda>a. Inr (VInt a)) froms"
      "\<forall>a\<in>set froms. \<bar>a\<bar> < 2 ^ 52" by blast
    from wf have "\<forall>s\<in>set matching. \<exists>a. attribute s ''LEFT_BLOCK_TO'' = Inr (VInt a) \<and> \<bar>a\<bar> < 2 ^ 52"
      by blast
    from map_ints_bounded[OF this] obtain tos where
      tos: "map (\<lambda>s. attribute s ''LEFT_BLOCK_TO'') matching = map (\<lambda>a. Inr (VInt a)) tos"
      "\<forall>a\<in>set tos. \<bar>a\<bar> < 2 ^ 52" by blast
    from block_range_ints[OF sne froms(1) tos(1) froms(2) tos(2)]
    show "\<exists>s e. block_range matching = Inr (s, e)" by blast
  }
qed

text \<open>The sample segments, evaluated.\<close>

lemma seg_attribute:
  "attribute (Some (seg n a b i)) ''FULL_STREET_NAME'' = Inr (VStr n)"
  "attribute (Some (seg n a b i)) ''LEFT_BLOCK_FROM'' = Inr (VInt a)"
  "attribute (Some (seg n a b i)) ''LEFT_BLOCK_TO'' = Inr (VInt b)"
  "attribute (Some (seg n a b i)) ''SEGMENT_ID'' = Inr (VInt i)"
  by (simp_all add: seg_def attribute_def getitem_def)

lemma sign_segments_matched_wo: "sign_segments (matched_wo segs) = segs"
  by (simp add: matched_wo_def)

lemma block_range_main_st:
  "block_range [Some (seg ''Main St'' 1210 1240 7), Some (seg ''Main St'' 1250 1290 9)] =
     Inr (1200, 1300)"
  using block_range_ints[of "[Some (seg ''Main St'' 1210 1240 7),
      Some (seg ''Main St'' 1250 1290 9)]" "[1210, 1250]" "[1240, 1290]"]
  by (simp add: seg_attribute)

lemma block_range_oak_st:
  "block_range [Some (seg ''Oak St'' 300 380 8), Some (seg ''Oak St'' 410 460 6)] =
     Inr (300, 500)"
  using block_range_ints[of "[Some (seg ''Oak St'' 300 380 8),
      Some (seg ''Oak St'' 410 460 6)]" "[300, 410]" "[380, 460]"]
  by (simp add: seg_attribute)

lemma block_range_elm_st:
  "block_range [Some (seg ''Elm St'' 500 560 4)] = Inr (500, 600)"
  using block_range_ints[of "[Some (seg ''Elm St'' 500 560 4)]" "[500]" "[560]"]
  by (simp add: seg_attribute)

lemma str_int_1200: "str_int 1200 = ''1200''"
  by code_simp

lemma str_int_1300: "str_int 1300 = ''1300''"
  by code_simp

lemma str_int_300: "str_int 300 = ''300''"
  by code_simp

lemma str_int_500: "str_int 500 = ''500''"
  by code_simp

lemma construct_location_main_st:
  "construct_location (matched_wo main_st_oak_st) = Inr main_st_located"
  by (simp add: construct_location_def sign_segments_matched_wo main_st_oak_st_def
      seg_attribute bind_err_def Counter_def most_common_def block_range_main_st
      Let_def str_int_1200 str_int_1300 main_st_located_def)

lemma construct_location_oak_st:
  "construct_location (matched_wo oak_main_tie) = Inr oak_located"
  by (simp add: construct_location_def sign_segments_matched_wo oak_main_tie_def
      seg_attribute bind_err_def Counter_def most_common_def block_range_oak_st
      Let_def str_int_300 str_int_500 oak_located_def)

text \<open>
  Signs matched to \<open>Main St\<close> (1210 to 1240), \<open>Oak St\<close> and \<open>Main St\<close> (1250 to 1290):
  the location is \<open>1200-1300 Main St\<close> and the reference is the first \<open>Main St\<close> segment.
\<close>

theorem construct_location_spec_witness:
  "sign_segments (matched_wo main_st_oak_st) \<noteq> [] \<and>
   construct_location (matched_wo main_st_oak_st) = Inr main_st_located"
proof -
  let ?wo = "matched_wo main_st_oak_st"
  let ?sub = "[Some (seg ''Main St'' 1210 1240 7), Some (seg ''Main St'' 1250 1290 9)]"
  have h1: "map (\<lambda>s. attribute s ''FULL_STREET_NAME'') (sign_segments ?wo) =
      map Inr [VStr ''Main St'', VStr ''Oak St'', VStr ''Main St'']"
    by (simp add: sign_segments_matched_wo main_st_oak_st_def seg_attribute)
  have h2: "sign_segments ?wo \<noteq> []"
    by (simp add: sign_segments_matched_wo main_st_oak_st_def)
  have h3: "most_common (Counter [VStr ''Main St'', VStr ''Oak St'', VStr ''Main St'']) =
      Inr (VStr ''Main St'')"
    by (simp add: most_common_def bind_err_def Counter_def)
  have h4: "?sub = filter (\<lambda>s. attribute s ''FULL_STREET_NAME'' = Inr (VStr ''Main St''))
      (sign_segments ?wo)"
    by (simp add: sign_segments_matched_wo main_st_oak_st_def seg_attribute)
  have h5: "attribute (hd ?sub) ''SEGMENT_ID'' = Inr (VInt 7)"
    by (simp add: seg_attribute)
  from construct_location_spec[OF h1 h2 h3 h4 h5, of 1200 1300] block_range_main_st
  have "construct_location ?wo =
      Inr (?wo\<lparr>wo_attributes := (wo_attributes ?wo)
             (''GENERATED_LOCATION_FROM_API'' \<mapsto>
                VStr (if length ?sub = 1
                      then str_int 1200 @ '' BLK '' @ py_str (VStr ''Main St'')
                      else str_int 1200 @ ''-'' @ str_int 1300 @ '' '' @
                           py_str (VStr ''Main St'')),
              ''LOCATION_STREET_SEGMENT_ID_REFERENCE'' \<mapsto> VInt 7)\<rparr>)"
    by blast
  then have "construct_location ?wo = Inr main_st_located"
    by (simp add: str_int_1200 str_int_1300 main_st_located_def)
  with h2 show ?thesis by blast
qed

text \<open>
  C2. Whenever \<open>construct_location\<close> returns, the matched segments all carry a
  \<open>FULL_STREET_NAME\<close> (the list \<open>names\<close>, in sign order) and there is an index \<open>i\<close> of that
  list such that no name occurs more often than \<open>names ! i\<close>, every name before index \<open>i\<close>
  occurs strictly less often (so \<open>names ! i\<close> is, among the names with the maximal
  count, the one that appears first), the stored location is built with the name
  \<open>names ! i\<close> (in the \<open>BLK\<close> form exactly when that name occurs once), and the stored
  reference is the \<open>SEGMENT_ID\<close> of the matched segment at index \<open>i\<close>.
\<close>

theorem construct_location_most_common:
  assumes "construct_location wo = Inr wo'"
  shows "\<exists>names i.
           map (\<lambda>s. attribute s ''FULL_STREET_NAME'') (sign_segments wo) = map Inr names \<and>
           i < length names \<and>
           (\<forall>j<length names. count_list names (names ! j) \<le> count_list names (names ! i)) \<and>
           (\<forall>j<i. count_list names (names ! j) < count_list names (names ! i)) \<and>
           (\<exists>start end.
              wo_attributes wo' ''GENERATED_LOCATION_FROM_API'' =
                Some (VStr (if count_list names (names ! i) = 1
                            then str_int start @ '' BLK '' @ py_str (names ! i)
                            else str_int start @ ''-'' @ str_int end @ '' '' @
                                 py_str (names ! i)))) \<and>
           (\<exists>sid. attribute (sign_segments wo ! i) ''SEGMENT_ID'' = Inr sid \<and>
                  wo_attributes wo' ''LOCATION_STREET_SEGMENT_ID_REFERENCE'' = Some sid)"
proof -
  let ?segs = "sign_segments wo"
  let ?nm = "\<lambda>s::'a feature option. attribute s ''FULL_STREET_NAME''"
  obtain names name sub bs sid where
    m: "mapM ?nm ?segs = Inr names" and
    name: "most_common (Counter names) = Inr name" and
    fm: "filterM (\<lambda>s. bind_err (?nm s) (\<lambda>n. Inr (n = name))) ?segs = Inr sub" and
    br: "block_range sub = Inr bs" and
    idx: "(case sub of [] \<Rightarrow> Inl (Error Builtin IndexError ''list index out of range'')
            | s # _ \<Rightarrow> attribute s ''SEGMENT_ID'') = Inr sid" and
    ret: "Inr (wo\<lparr>wo_attributes := (wo_attributes wo)
             (''GENERATED_LOCATION_FROM_API'' \<mapsto>
                VStr (if length sub = 1
                      then str_int (fst bs) @ '' BLK '' @ py_str name
                      else str_int (fst bs) @ ''-'' @ str_int (snd bs) @ '' '' @ py_str name),
              ''LOCATION_STREET_SEGMENT_ID_REFERENCE'' \<mapsto> sid)\<rparr>) = (Inr wo' :: error + 'a work_order)"
    using assms[unfolded construct_location_def Let_def case_prod_beta bind_err_Inr]
    by (elim exE conjE) (erule that; assumption)
  from ret have wo': "wo' = wo\<lparr>wo_attributes := (wo_attributes wo)
             (''GENERATED_LOCATION_FROM_API'' \<mapsto>
                VStr (if length sub = 1
                      then str_int (fst bs) @ '' BLK '' @ py_str name
                      else str_int (fst bs) @ ''-'' @ str_int (snd bs) @ '' '' @ py_str name),
              ''LOCATION_STREET_SEGMENT_ID_REFERENCE'' \<mapsto> sid)\<rparr>"
    by (simp only: sum.inject)
  have names: "map ?nm ?segs = map Inr names" using m by (rule mapM_Inr_D)
  have len: "length names = length ?segs" using names by (metis length_map)
  have "names \<noteq> []"
    using name by (auto simp: most_common_def bind_err_def Counter_def)
  from most_common_first_max[OF this] name obtain i where
    i: "i < length names" "name = names ! i"
    "\<forall>j<length names. count_list names (names ! j) \<le> count_list names (names ! i)"
    "\<forall>j<i. count_list names (names ! j) < count_list names (names ! i)"
    by auto
  have nth: "?nm (?segs ! j) = Inr (names ! j)" if "j < length names" for j
  proof -
    have "map ?nm ?segs ! j = map Inr names ! j" by (simp only: names)
    then show ?thesis using that len by simp
  qed
  have sub: "sub = filter (\<lambda>s. ?nm s = Inr name) ?segs"
    using fm by (simp only: filterM_name[OF names, of name] sum.inject)
  have before: "\<forall>j<i. \<not> (?nm (?segs ! j) = Inr name)"
  proof (intro allI impI)
    fix j assume j: "j < i"
    then have "count_list names (names ! j) < count_list names (names ! i)" using i(4) by simp
    then have "names ! j \<noteq> names ! i" by auto
    moreover have "?nm (?segs ! j) = Inr (names ! j)" using j i(1) by (intro nth) simp
    ultimately show "\<not> (?nm (?segs ! j) = Inr name)" by (simp only: i(2) sum.inject) simp
  qed
  have at: "?nm (?segs ! i) = Inr name" using nth[OF i(1)] by (simp only: i(2))
  have i': "i < length ?segs" using i(1) len by simp
  from filter_first[of i ?segs "\<lambda>s. ?nm s = Inr name", OF i' at before]
  obtain rest where "filter (\<lambda>s. ?nm s = Inr name) ?segs = ?segs ! i # rest" ..
  then have "sub = ?segs ! i # rest" by (simp only: sub)
  then have sid: "attribute (?segs ! i) ''SEGMENT_ID'' = Inr sid" using idx by simp
  have cnt: "length sub = count_list names (names ! i)"
    unfolding sub i(2) using names by (rule length_filter_names)
  have gen: "wo_attributes wo' ''GENERATED_LOCATION_FROM_API'' =
          Some (VStr (if count_list names (names ! i) = 1
                      then str_int (fst bs) @ '' BLK '' @ py_str (names ! i)
                      else str_int (fst bs) @ ''-'' @ str_int (snd bs) @ '' '' @
                           py_str (names ! i)))"
    by (simp add: wo' cnt i(2))
  have ref: "wo_attributes wo' ''LOCATION_STREET_SEGMENT_ID_REFERENCE'' = Some sid"
    by (simp add: wo')
  have A: "\<exists>start end.
              wo_attributes wo' ''GENERATED_LOCATION_FROM_API'' =
                Some (VStr (if count_list names (names ! i) = 1
                            then str_int start @ '' BLK '' @ py_str (names ! i)
                            else str_int start @ ''-'' @ str_int end @ '' '' @
                                 py_str (names ! i)))"
    by (rule exI[of _ "fst bs"], rule exI[of _ "snd bs"], rule gen)
  have B: "\<exists>sid. attribute (sign_segments wo ! i) ''SEGMENT_ID'' = Inr sid \<and>
                  wo_attributes wo' ''LOCATION_STREET_SEGMENT_ID_REFERENCE'' = Some sid"
    by (rule exI[of _ sid], rule conjI, rule sid, rule ref)
  show ?thesis
    by (rule exI[of _ names], rule exI[of _ i], intro conjI, rule names, rule i(1), rule i(3),
        rule i(4), rule A, rule B)
qed

text \<open>
  \<open>Oak St\<close> and \<open>Main St\<close> both occur twice and \<open>Oak St\<close> comes first: the location is
  on \<open>Oak St\<close> and the reference is the first \<open>Oak St\<close> segment.
\<close>

theorem construct_location_most_common_witness:
  "construct_location (matched_wo oak_main_tie) = Inr oak_located \<and>
   wo_attributes oak_located ''GENERATED_LOCATION_FROM_API'' = Some (VStr ''300-500 Oak St'') \<and>
   wo_attributes oak_located ''LOCATION_STREET_SEGMENT_ID_REFERENCE'' = Some (VInt 8)"
proof -
  from construct_location_most_common[OF construct_location_oak_st]
  obtain names i where
    "map (\<lambda>s. attribute s ''FULL_STREET_NAME'') (sign_segments (matched_wo oak_main_tie)) =
       map Inr names" "i < length names" by blast
  moreover have "wo_attributes oak_located ''GENERATED_LOCATION_FROM_API'' =
      Some (VStr ''300-500 Oak St'')" by (simp add: oak_located_def)
  moreover have "wo_attributes oak_located ''LOCATION_STREET_SEGMENT_ID_REFERENCE'' =
      Some (VInt 8)" by (simp add: oak_located_def)
  ultimately show ?thesis using construct_location_oak_st by blast
qed

text \<open>
  C10. Whenever \<open>construct_location\<close> returns, the work order differs from the one it
  was called on in its attribute mapping only (geometry, signs, street segments and
  matched segments are the same), and there only at the keys
  \<open>GENERATED_LOCATION_FROM_API\<close> and \<open>LOCATION_STREET_SEGMENT_ID_REFERENCE\<close>. (When it raises,
  it has not written anything: the update is its last statement.)
\<close>

theorem construct_location_frame:
  assumes "construct_location wo = Inr wo'"
  shows "wo' = wo\<lparr>wo_attributes := wo_attributes wo'\<rparr> \<and>
         (\<forall>k. k \<noteq> ''GENERATED_LOCATION_FROM_API'' \<and> k \<noteq> ''LOCATION_STREET_SEGMENT_ID_REFERENCE''
              \<longrightarrow> wo_attributes wo' k = wo_attributes wo k)"
proof -
  from assms obtain loc sid where
    "wo' = wo\<lparr>wo_attributes := (wo_attributes wo)
             (''GENERATED_LOCATION_FROM_API'' \<mapsto> loc,
              ''LOCATION_STREET_SEGMENT_ID_REFERENCE'' \<mapsto> sid)\<rparr>"
    unfolding construct_location_def Let_def
    by (auto simp: bind_err_Inr split: prod.splits)
  then show ?thesis by simp
qed

text \<open>In the example above the \<open>OBJECTID\<close> and the matched segments are as before.\<close>

theorem construct_location_frame_witness:
  "construct_location (matched_wo main_st_oak_st) = Inr main_st_located \<and>
   wo_attributes main_st_located ''OBJECTID'' = wo_attributes (matched_wo main_st_oak_st) ''OBJECTID'' \<and>
   wo_attributes main_st_located ''OBJECTID'' = Some (VInt 1) \<and>
   sign_segments main_st_located = sign_segments (matched_wo main_st_oak_st)"
proof -
  from construct_location_frame[OF construct_location_main_st] have
    "main_st_located = (matched_wo main_st_oak_st)\<lparr>wo_attributes := wo_attributes main_st_located\<rparr>"
    and "wo_attributes main_st_located ''OBJECTID'' =
         wo_attributes (matched_wo main_st_oak_st) ''OBJECTID''"
    by simp_all
  moreover have "wo_attributes (matched_wo main_st_oak_st) ''OBJECTID'' = Some (VInt 1)"
    by (simp add: matched_wo_def new_wo_def)
  moreover have "sign_segments main_st_located = sign_segments (matched_wo main_st_oak_st)"
    by (simp add: main_st_located_def)
  ultimately show ?thesis using construct_location_main_st by simp
qed

text \<open>
  C5, as the code has it. On an empty list of matched segments \<open>construct_location\<close>
  fails with the \<open>ValueError\<close> that the builtin \<open>max\<close> raises on an empty sequence; on a
  list whose first entry is \<open>None\<close> (so also when all entries are \<open>None\<close>) it fails with
  the \<open>AttributeError\<close> of the attribute access on \<open>None\<close>. Neither exception is raised by
  a statement of the step.
\<close>

theorem construct_location_degenerate:
  "construct_location (wo\<lparr>sign_segments := []\<rparr>) =
     Inl (Error Builtin ValueError ''max() arg is an empty sequence'') \<and>
   construct_location (wo\<lparr>sign_segments := None # rest\<rparr>) =
     Inl (Error Builtin AttributeError
            (quote @ ''NoneType'' @ quote @ '' object has no attribute '' @
             quote @ ''attributes'' @ quote))"
  by (simp add: construct_location_def bind_err_def Counter_def most_common_def attribute_def)

text \<open>Two signs, both without a matched segment.\<close>

theorem construct_location_degenerate_witness:
  "construct_location ((new_wo 0 1)\<lparr>sign_segments := [None, None]\<rparr>) =
     Inl (Error Builtin AttributeError
            (quote @ ''NoneType'' @ quote @ '' object has no attribute '' @
             quote @ ''attributes'' @ quote))"
  using construct_location_degenerate[of "new_wo 0 1" "[None]"] by simp

text \<open>
  A work order without matched segments: the failure is the one of \<open>max\<close>, not an
  exception that the step raises and describes itself.
\<close>

theorem construct_location_degenerate_counterexample:
  "construct_location (matched_wo []) =
     Inl (Error Builtin ValueError ''max() arg is an empty sequence'') \<and>
   \<not> explicit_failure (construct_location (matched_wo []))"
  by (simp add: construct_location_def sign_segments_matched_wo bind_err_def Counter_def
      most_common_def explicit_failure_def)

section \<open>The batch loop\<close>

lemma identify_eng_area_frame:
  assumes "identify_eng_area e w wo = (w1, Inr wo1)"
  shows "services w1 = services w \<and> wo_geometry wo1 = wo_geometry wo \<and>
         wo_attributes wo1 ''OBJECTID'' = wo_attributes wo ''OBJECTID'' \<and>
         signs wo1 = signs wo"
  using assms
  by (auto simp: identify_eng_area_def warning_def split: sum.splits list.splits)

text \<open>
  C8. When the signs query returns no feature for a work order, the loop logs one
  warning (with the work order's \<open>OBJECTID\<close>) and goes on with the remaining work orders
  from a world that differs by that log record only: nothing is raised, and no
  enrichment step or external write happens for the work order.
\<close>

theorem no_signs_skipped:
  assumes "signs_query e (services w) (wo_geometry wo) = []"
    and "wo_attributes wo ''OBJECTID'' = Some oid"
  shows "main_loop e (wo # work_orders) w =
           main_loop e work_orders
             (warning (''Work order has no intersecting sign points: '' @ py_str oid) w)"
  using assms by (simp add: get_signs_def getitem_def)

lemma str_int_11: "str_int 11 = ''11''"
  by code_simp

lemma str_int_12: "str_int 12 = ''12''"
  by code_simp

lemma geometry_seg: "geometry (seg n a b i) = 0"
  by (simp add: seg_def)

lemma main_loop_wo3:
  "main_loop sample_env [new_wo 3 13] w = (w\<lparr>services := Suc (services w)\<rparr>, None)"
  by (simp add: sample_env_def new_wo_def get_signs_def process_work_order_def
      identify_eng_area_def identify_street_segments_def identify_nearest_sign_segments_def
      find_nearest_feature_def construct_location_def pt_def geometry_seg seg_attribute
      getitem_def bind_err_def Counter_def most_common_def block_range_elm_st
      Let_def str_int_500)

text \<open>A work order without signs, followed by one that is processed.\<close>

theorem no_signs_skipped_witness:
  "signs_query sample_env (services world0) (wo_geometry (new_wo 1 11)) = [] \<and>
   wo_attributes (new_wo 1 11) ''OBJECTID'' = Some (VInt 11) \<and>
   main_loop sample_env [new_wo 1 11, new_wo 3 13] world0 =
     (\<lparr>logged = [(WARNING, ''Work order has no intersecting sign points: 11'')],
       services = 1\<rparr>, None)"
proof -
  have h1: "signs_query sample_env (services world0) (wo_geometry (new_wo 1 11)) = []"
    by (simp add: sample_env_def new_wo_def)
  have h2: "wo_attributes (new_wo 1 11) ''OBJECTID'' = Some (VInt 11)"
    by (simp add: new_wo_def)
  have "main_loop sample_env [new_wo 1 11, new_wo 3 13] world0 =
          main_loop sample_env [new_wo 3 13]
            (warning (''Work order has no intersecting sign points: '' @ py_str (VInt 11)) world0)"
    using h1 h2 by (rule no_signs_skipped)
  also have "\<dots> = (\<lparr>logged = [(WARNING, ''Work order has no intersecting sign points: 11'')],
       services = 1\<rparr>, None)"
    by (simp only: main_loop_wo3) (simp add: warning_def world0_def str_int_11)
  finally show ?thesis using h1 h2 by blast
qed

text \<open>
  C7, as the code has it. When a work order has signs, its engineer area is identified
  and the street-segment query returns no feature, \<open>identify_street_segments\<close> raises a
  \<open>ValueError\<close> whose message ends with the work order's \<open>OBJECTID\<close>. The loop has no
  handler: the exception ends the run with the world as the engineer-area step left it,
  whatever work orders remain.
\<close>

theorem no_street_segments_stops_batch:
  assumes "signs_query e (services w) (wo_geometry wo) \<noteq> []"
    and "identify_eng_area e w (get_signs e w wo) = (w1, Inr wo1)"
    and "street_segments_query e (services w) (wo_geometry wo) = []"
    and "wo_attributes wo ''OBJECTID'' = Some oid"
  shows "main_loop e (wo # work_orders) w =
           (w1, Some (Error RaiseStmt ValueError
                        (''No street segments found at work order location: '' @ py_str oid)))"
proof -
  from identify_eng_area_frame[OF assms(2)] have
    f: "services w1 = services w" "wo_geometry wo1 = wo_geometry wo"
       "wo_attributes wo1 ''OBJECTID'' = Some oid"
    using assms(4) by (simp_all add: get_signs_def)
  have "identify_street_segments e w1 wo1 =
          Inl (Error RaiseStmt ValueError
                 (''No street segments found at work order location: '' @ py_str oid))"
    using assms(3) f by (simp add: identify_street_segments_def bind_err_def getitem_def)
  then have "process_work_order e w (get_signs e w wo) =
          (w1, Some (Error RaiseStmt ValueError
                 (''No street segments found at work order location: '' @ py_str oid)))"
    using assms(2) by (simp add: process_work_order_def)
  moreover have "signs (get_signs e w wo) \<noteq> []" using assms(1) by (simp add: get_signs_def)
  ultimately show ?thesis by (simp add: Let_def)
qed

text \<open>A work order without street segments, followed by one without signs.\<close>

theorem no_street_segments_stops_batch_witness:
  "signs_query sample_env (services world0) (wo_geometry (new_wo 2 12)) \<noteq> [] \<and>
   street_segments_query sample_env (services world0) (wo_geometry (new_wo 2 12)) = [] \<and>
   wo_attributes (new_wo 2 12) ''OBJECTID'' = Some (VInt 12) \<and>
   main_loop sample_env [new_wo 2 12, new_wo 1 11] world0 =
     (world0, Some (Error RaiseStmt ValueError
                      ''No street segments found at work order location: 12''))"
proof -
  have h1: "signs_query sample_env (services world0) (wo_geometry (new_wo 2 12)) \<noteq> []"
    by (simp add: sample_env_def new_wo_def)
  have h2: "identify_eng_area sample_env world0 (get_signs sample_env world0 (new_wo 2 12)) =
      (world0, Inr ((get_signs sample_env world0 (new_wo 2 12))
         \<lparr>wo_attributes := (wo_attributes (get_signs sample_env world0 (new_wo 2 12)))
             (''WORK_AREA'' \<mapsto> VStr ''NORTH'')\<rparr>))"
    by (simp add: identify_eng_area_def sample_env_def getitem_def)
  have h3: "street_segments_query sample_env (services world0) (wo_geometry (new_wo 2 12)) = []"
    by (simp add: sample_env_def new_wo_def)
  have h4: "wo_attributes (new_wo 2 12) ''OBJECTID'' = Some (VInt 12)"
    by (simp add: new_wo_def)
  have "main_loop sample_env [new_wo 2 12, new_wo 1 11] world0 =
     (world0, Some (Error RaiseStmt ValueError
                      (''No street segments found at work order location: '' @ py_str (VInt 12))))"
    using h1 h2 h3 h4 by (rule no_street_segments_stops_batch)
  also have "''No street segments found at work order location: '' @ py_str (VInt 12) =
     ''No street segments found at work order location: 12''"
    by (simp add: str_int_12)
  finally show ?thesis using h1 h3 h4 by blast
qed

text \<open>
  The batch does not continue: after the work order without street segments the next
  one, which on its own is processed and reaches Knack, is not touched.
\<close>

theorem batch_continues_counterexample:
  "main_loop sample_env [new_wo 2 12, new_wo 3 13] world0 =
     (world0, Some (Error RaiseStmt ValueError
                      ''No street segments found at work order location: 12'')) \<and>
   main_loop sample_env [new_wo 3 13] world0 = (\<lparr>logged = [], services = 1\<rparr>, None)"
proof -
  have "main_loop sample_env [new_wo 2 12, new_wo 3 13] world0 =
     (world0, Some (Error RaiseStmt ValueError
                      ''No street segments found at work order location: 12''))"
    by (simp add: sample_env_def new_wo_def get_signs_def process_work_order_def
      identify_eng_area_def identify_street_segments_def getitem_def bind_err_def
      Let_def str_int_12)
  moreover have "main_loop sample_env [new_wo 3 13] world0 = (\<lparr>logged = [], services = 1\<rparr>, None)"
    by (simp only: main_loop_wo3) (simp add: world0_def)
  ultimately show ?thesis by blast
qed

end
